theory Spec2Isabelle
  imports Complex_Main
begin

section \<open>Numbers\<close>

text \<open>
  A JavaScript number is an IEEE double. The functions below only multiply, add, subtract and
  compare numbers, and they are modelled on the reals: rounding is abstracted away.
\<close>

type_synonym number = real

section \<open>Rectangle (05-objects-tasks.js, lines 23-30)\<close>

text \<open>
  The object literal of \<open>Rectangle\<close> has two data fields and one arrow function. The arrow
  function closes over the parameters \<open>widthe\<close> and \<open>heighte\<close> of the constructor call,
  not over the object; assigning to a field of the returned object is a record update.
\<close>

record rectangle =
  width :: number
  height :: number
  getArea :: "unit \<Rightarrow> number"

definition Rectangle :: "number \<Rightarrow> number \<Rightarrow> rectangle" where
  "Rectangle widthe heighte =
     \<lparr>width = widthe, height = heighte, getArea = (\<lambda>_. widthe * heighte)\<rparr>"

section \<open>Objects and the heap\<close>

text \<open>
  The selector builder allocates objects with \<open>Object.create\<close>, copies properties with
  \<open>Object.assign\<close> and then assigns to the new object. To keep what is shared and what is
  written visible, objects live in a heap: a list of objects, the address of an object being
  its index, and a new object being appended at the end.

  An object has a prototype link, its own data properties (all of them strings here) and, as
  its only possibly function-valued own property, \<open>stringify\<close>: the arrow function that
  \<open>combine\<close> stores, which closes over the combined object, so it is represented by that
  object's address. A prototype link \<open>None\<close> stands for \<open>CssSelectorBuilderClass.prototype\<close>,
  which carries the methods of the class and no data property.
\<close>

type_synonym addr = nat

record obj =
  proto :: "addr option"
  props :: "string \<rightharpoonup> string"
  own_stringify :: "addr option"

type_synonym heap = "obj list"

definition obj_at :: "heap \<Rightarrow> addr \<Rightarrow> obj option" where
  "obj_at h a = (if a < length h then Some (h ! a) else None)"

text \<open>\<open>Object.create(p)\<close>: a new object with prototype \<open>p\<close> and no own property.\<close>

definition Object_create :: "heap \<Rightarrow> addr \<Rightarrow> heap \<times> addr" where
  "Object_create h p =
     (h @ [\<lparr>proto = Some p, props = Map.empty, own_stringify = None\<rparr>], length h)"

text \<open>\<open>Object.assign(tgt, src)\<close>: every own enumerable property of \<open>src\<close> is written to
  \<open>tgt\<close>; properties that \<open>src\<close> only inherits are not copied.\<close>

definition Object_assign :: "heap \<Rightarrow> addr \<Rightarrow> addr \<Rightarrow> heap" where
  "Object_assign h tgt src =
     (case obj_at h tgt of
        None \<Rightarrow> h
      | Some t \<Rightarrow>
          (case obj_at h src of
             None \<Rightarrow> h
           | Some s \<Rightarrow>
               h[tgt := t\<lparr>props := props t ++ props s,
                          own_stringify := (case own_stringify s of
                                              Some f \<Rightarrow> Some f
                                            | None \<Rightarrow> own_stringify t)\<rparr>]))"

text \<open>The assignments \<open>a.k = v\<close> and \<open>a.stringify = f\<close>: an own property of \<open>a\<close> is
  created or overwritten (none of the properties involved has a setter).\<close>

definition set_prop :: "heap \<Rightarrow> addr \<Rightarrow> string \<Rightarrow> string \<Rightarrow> heap" where
  "set_prop h a k v =
     (case obj_at h a of
        None \<Rightarrow> h
      | Some ob \<Rightarrow> h[a := ob\<lparr>props := (props ob)(k \<mapsto> v)\<rparr>])"

definition set_stringify :: "heap \<Rightarrow> addr \<Rightarrow> addr \<Rightarrow> heap" where
  "set_stringify h a f =
     (case obj_at h a of
        None \<Rightarrow> h
      | Some ob \<Rightarrow> h[a := ob\<lparr>own_stringify := Some f\<rparr>])"

text \<open>
  Reading a property follows the prototype chain. A prototype is an object that existed
  when \<open>Object.create\<close> was called, so its address is smaller than that of the object
  created; the chain is followed downwards only, which makes the lookup terminate.
\<close>

function get_chain :: "(obj \<Rightarrow> 'v option) \<Rightarrow> heap \<Rightarrow> addr \<Rightarrow> 'v option" where
  "get_chain sel h a =
     (if a < length h then
        (case sel (h ! a) of
           Some v \<Rightarrow> Some v
         | None \<Rightarrow>
             (case proto (h ! a) of
                None \<Rightarrow> None
              | Some p \<Rightarrow> if p < a then get_chain sel h p else None))
      else None)"
  by pat_completeness auto
termination
  by (relation "measure (\<lambda>(sel, h, a). a)") auto

declare get_chain.simps [simp del]

text \<open>\<open>a[k]\<close>; \<open>None\<close> is \<open>undefined\<close>.\<close>

definition get_prop :: "heap \<Rightarrow> addr \<Rightarrow> string \<Rightarrow> string option" where
  "get_prop h a k = get_chain (\<lambda>ob. props ob k) h a"

text \<open>The \<open>stringify\<close> an object answers with: \<open>Some n\<close> is the arrow function stored by
  \<open>combine\<close> on object \<open>n\<close>, \<open>None\<close> the method of the class.\<close>

definition get_method :: "heap \<Rightarrow> addr \<Rightarrow> addr option" where
  "get_method h a = get_chain own_stringify h a"

text \<open>Truthiness of a property value: \<open>undefined\<close> and the empty string are falsy.\<close>

fun truthy :: "string option \<Rightarrow> bool" where
  "truthy None = False"
| "truthy (Some s) = (s \<noteq> [])"

text \<open>A value inside a template literal or on the left of \<open>+=\<close> with a string.\<close>

fun str :: "string option \<Rightarrow> string" where
  "str None = ''undefined''"
| "str (Some s) = s"

section \<open>CssSelectorBuilderClass (05-objects-tasks.js, lines 128-231)\<close>

text \<open>The two messages thrown by the builder, named as the specification names them:
  \<open>DuplicateViolation\<close> is the \<open>Error\<close> with the text of \<open>message DuplicateViolation\<close>,
  \<open>OrderViolation\<close> the one with the text of \<open>message OrderViolation\<close>.\<close>

datatype error = DuplicateViolation | OrderViolation

fun message :: "error \<Rightarrow> string" where
  "message DuplicateViolation =
     ''Element, id and pseudo-element should not occur more then one time inside the selector''"
| "message OrderViolation =
     ''Selector parts should be arranged in the following order: element, id, class, attribute, pseudo-class, pseudo-element''"

text \<open>\<open>new CssSelectorBuilderClass()\<close>: the constructor writes the six fields.\<close>

definition new_CssSelectorBuilderClass :: "heap \<Rightarrow> heap \<times> addr" where
  "new_CssSelectorBuilderClass h =
     (h @ [\<lparr>proto = None,
            props = [''cssClass'' \<mapsto> [], ''cssPseudoClass'' \<mapsto> [], ''cssElement'' \<mapsto> [],
                     ''cssId'' \<mapsto> [], ''cssAttr'' \<mapsto> [], ''cssPseudoElement'' \<mapsto> []],
            own_stringify = None\<rparr>], length h)"

text \<open>The module creates one builder, \<open>cssSelectorBuilder\<close>, when it is loaded.\<close>

definition heap0 :: heap where
  "heap0 = fst (new_CssSelectorBuilderClass [])"

definition cssSelectorBuilder :: addr where
  "cssSelectorBuilder = snd (new_CssSelectorBuilderClass [])"

text \<open>The method \<open>stringify\<close> of the class (lines 140-149).\<close>

definition stringify :: "heap \<Rightarrow> addr \<Rightarrow> string" where
  "stringify h this =
     (let element' = (if truthy (get_prop h this ''cssElement'')
                      then str (get_prop h this ''cssElement'') else []);
          id' = (if truthy (get_prop h this ''cssId'')
                 then ''#'' @ str (get_prop h this ''cssId'') else []);
          clas = (if truthy (get_prop h this ''cssClass'')
                  then str (get_prop h this ''cssClass'') else []);
          attr' = (if truthy (get_prop h this ''cssAttr'')
                   then ''['' @ str (get_prop h this ''cssAttr'') @ '']'' else []);
          psClas = (if truthy (get_prop h this ''cssPseudoClass'')
                    then str (get_prop h this ''cssPseudoClass'') else []);
          psElem = (if truthy (get_prop h this ''cssPseudoElement'')
                    then ''::'' @ str (get_prop h this ''cssPseudoElement'') else [])
      in element' @ id' @ clas @ attr' @ psClas @ psElem)"

text \<open>The arrow function of line 228, closed over the object \<open>n\<close> it was stored on.\<close>

definition combined_stringify :: "heap \<Rightarrow> addr \<Rightarrow> string" where
  "combined_stringify h n =
     str (get_prop h n ''s1'') @ '' '' @ str (get_prop h n ''c'') @ '' '' @ str (get_prop h n ''s2'')"

text \<open>The call \<open>a.stringify()\<close>.\<close>

definition call_stringify :: "heap \<Rightarrow> addr \<Rightarrow> string" where
  "call_stringify h a =
     (case get_method h a of
        Some n \<Rightarrow> combined_stringify h n
      | None \<Rightarrow> stringify h a)"

text \<open>The two statements every fragment method starts its success path with:
  \<open>const o = Object.create(this); Object.assign(o, this);\<close>\<close>

definition create_assign :: "heap \<Rightarrow> addr \<Rightarrow> heap \<times> addr" where
  "create_assign h this =
     (case Object_create h this of (h1, n) \<Rightarrow> (Object_assign h1 n this, n))"

definition element :: "heap \<Rightarrow> addr \<Rightarrow> string \<Rightarrow> error + heap \<times> addr" where
  "element h this v =
     (if truthy (get_prop h this ''cssElement'') then Inl DuplicateViolation
      else if list_ex (\<lambda>e. truthy (get_prop h this e))
                [''cssId'', ''cssClass'', ''cssAttr'', ''cssPseudoClass'', ''cssPseudoElement'']
      then Inl OrderViolation
      else (case create_assign h this of (h1, n) \<Rightarrow> Inr (set_prop h1 n ''cssElement'' v, n)))"

definition id' :: "heap \<Rightarrow> addr \<Rightarrow> string \<Rightarrow> error + heap \<times> addr" where
  "id' h this v =
     (if truthy (get_prop h this ''cssId'') then Inl DuplicateViolation
      else if list_ex (\<lambda>e. truthy (get_prop h this e))
                [''cssClass'', ''cssAttr'', ''cssPseudoClass'', ''cssPseudoElement'']
      then Inl OrderViolation
      else (case create_assign h this of (h1, n) \<Rightarrow> Inr (set_prop h1 n ''cssId'' v, n)))"

definition class' :: "heap \<Rightarrow> addr \<Rightarrow> string \<Rightarrow> error + heap \<times> addr" where
  "class' h this v =
     (if list_ex (\<lambda>e. truthy (get_prop h this e))
           [''cssAttr'', ''cssPseudoClass'', ''cssPseudoElement'']
      then Inl OrderViolation
      else (case create_assign h this of (h1, n) \<Rightarrow>
              Inr (set_prop h1 n ''cssClass'' (str (get_prop h1 n ''cssClass'') @ ''.'' @ v), n)))"

definition attr :: "heap \<Rightarrow> addr \<Rightarrow> string \<Rightarrow> error + heap \<times> addr" where
  "attr h this v =
     (if list_ex (\<lambda>e. truthy (get_prop h this e)) [''cssPseudoClass'', ''cssPseudoElement'']
      then Inl OrderViolation
      else (case create_assign h this of (h1, n) \<Rightarrow> Inr (set_prop h1 n ''cssAttr'' v, n)))"

definition pseudoClass :: "heap \<Rightarrow> addr \<Rightarrow> string \<Rightarrow> error + heap \<times> addr" where
  "pseudoClass h this v =
     (if truthy (get_prop h this ''cssPseudoElement'') then Inl OrderViolation
      else (case create_assign h this of (h1, n) \<Rightarrow>
              Inr (set_prop h1 n ''cssPseudoClass''
                     (str (get_prop h1 n ''cssPseudoClass'') @ '':'' @ v), n)))"

definition pseudoElement :: "heap \<Rightarrow> addr \<Rightarrow> string \<Rightarrow> error + heap \<times> addr" where
  "pseudoElement h this v =
     (if truthy (get_prop h this ''cssPseudoElement'') then Inl DuplicateViolation
      else (case create_assign h this of (h1, n) \<Rightarrow> Inr (set_prop h1 n ''cssPseudoElement'' v, n)))"

text \<open>\<open>combine\<close> (lines 223-230) does not throw: both selectors answer \<open>stringify\<close>.\<close>

definition combine :: "heap \<Rightarrow> addr \<Rightarrow> addr \<Rightarrow> string \<Rightarrow> addr \<Rightarrow> heap \<times> addr" where
  "combine h this selector1 combinator selector2 =
     (case Object_create h this of (h1, n) \<Rightarrow>
        (let h2 = set_prop h1 n ''s1'' (call_stringify h1 selector1);
             h3 = set_prop h2 n ''s2'' (call_stringify h2 selector2);
             h4 = set_prop h3 n ''c'' combinator;
             h5 = set_stringify h4 n n
         in (h5, n)))"

subsection \<open>Derivation chains\<close>

text \<open>A chain \<open>b.m\<^sub>1(v\<^sub>1).m\<^sub>2(v\<^sub>2)...\<close> of fragment methods: each method is called on the object
  the previous one returned, and the first exception ends the chain.\<close>

datatype call = Element string | Id string | Class string | Attr string
  | PseudoClass string | PseudoElement string

fun call_on :: "heap \<Rightarrow> addr \<Rightarrow> call \<Rightarrow> error + heap \<times> addr" where
  "call_on h a (Element v) = element h a v"
| "call_on h a (Id v) = id' h a v"
| "call_on h a (Class v) = class' h a v"
| "call_on h a (Attr v) = attr h a v"
| "call_on h a (PseudoClass v) = pseudoClass h a v"
| "call_on h a (PseudoElement v) = pseudoElement h a v"

fun chain :: "heap \<Rightarrow> addr \<Rightarrow> call list \<Rightarrow> error + heap \<times> addr" where
  "chain h a [] = Inr (h, a)"
| "chain h a (c # cs) =
     (case call_on h a c of
        Inl e \<Rightarrow> Inl e
      | Inr (h', a') \<Rightarrow> chain h' a' cs)"

subsection \<open>Notions used to state the results\<close>

text \<open>The field a call writes, and the token it is given.\<close>

fun field :: "call \<Rightarrow> string" where
  "field (Element v) = ''cssElement''"
| "field (Id v) = ''cssId''"
| "field (Class v) = ''cssClass''"
| "field (Attr v) = ''cssAttr''"
| "field (PseudoClass v) = ''cssPseudoClass''"
| "field (PseudoElement v) = ''cssPseudoElement''"

fun token :: "call \<Rightarrow> string" where
  "token (Element v) = v"
| "token (Id v) = v"
| "token (Class v) = v"
| "token (Attr v) = v"
| "token (PseudoClass v) = v"
| "token (PseudoElement v) = v"

text \<open>The string a successful call stores in its field.\<close>

fun written :: "heap \<Rightarrow> addr \<Rightarrow> call \<Rightarrow> string" where
  "written h a (Class v) = str (get_prop h a ''cssClass'') @ ''.'' @ v"
| "written h a (PseudoClass v) = str (get_prop h a ''cssPseudoClass'') @ '':'' @ v"
| "written h a c = token c"

text \<open>The fixed order of the fragment kinds, each named by its field, and the kinds that
  come after the kind of a call.\<close>

definition kind_order :: "string list" where
  "kind_order =
     [''cssElement'', ''cssId'', ''cssClass'', ''cssAttr'', ''cssPseudoClass'', ''cssPseudoElement'']"

definition later_kinds :: "call \<Rightarrow> string list" where
  "later_kinds c = tl (dropWhile (\<lambda>k. k \<noteq> field c) kind_order)"

text \<open>A fragment is present (set) in an object when its field holds a non-empty string:
  this is the test every guard of the builder and every line of \<open>stringify\<close> makes.\<close>

definition present :: "heap \<Rightarrow> addr \<Rightarrow> string \<Rightarrow> bool" where
  "present h a k = truthy (get_prop h a k)"

text \<open>The tokens given to the calls of one kind in a chain, in call order; and the token of a
  kind that holds one value: the one given last.\<close>

definition tokens :: "string \<Rightarrow> call list \<Rightarrow> string list" where
  "tokens k cs = map token (filter (\<lambda>c. field c = k) cs)"

definition single :: "string \<Rightarrow> call list \<Rightarrow> string" where
  "single k cs = (if tokens k cs = [] then [] else last (tokens k cs))"

text \<open>The rendering the specification describes for the fragments given by a chain of calls:
  the element token, \<open>#id\<close> if present, every class as \<open>.token\<close>, \<open>[attribute]\<close> if
  present, every pseudo-class as \<open>:token\<close>, \<open>::pseudoElement\<close> if present.\<close>

definition spec_render :: "call list \<Rightarrow> string" where
  "spec_render cs =
     single ''cssElement'' cs
     @ (if single ''cssId'' cs \<noteq> [] then ''#'' @ single ''cssId'' cs else [])
     @ concat (map (\<lambda>t. ''.'' @ t) (tokens ''cssClass'' cs))
     @ (if single ''cssAttr'' cs \<noteq> [] then ''['' @ single ''cssAttr'' cs @ '']'' else [])
     @ concat (map (\<lambda>t. '':'' @ t) (tokens ''cssPseudoClass'' cs))
     @ (if single ''cssPseudoElement'' cs \<noteq> [] then ''::'' @ single ''cssPseudoElement'' cs else [])"

text \<open>A builder as the constructor leaves it: the six fields empty, \<open>stringify\<close> the method
  of the class.\<close>

definition fresh_builder :: "heap \<Rightarrow> addr \<Rightarrow> bool" where
  "fresh_builder h b =
     (list_all (\<lambda>k. get_prop h b k = Some []) kind_order \<and> get_method h b = None)"

text \<open>In a well-formed heap the arrow function stored on an object closes over an allocated
  object. The heap of the module is well-formed, and the fragment methods and \<open>combine\<close>
  keep a heap well-formed (\<open>wf_heap0\<close>, \<open>call_on_wf\<close>, \<open>combine_wf\<close> below).\<close>

definition wf_heap :: "heap \<Rightarrow> bool" where
  "wf_heap h =
     list_all (\<lambda>ob. case own_stringify ob of None \<Rightarrow> True | Some m \<Rightarrow> m < length h) h"

text \<open>What can be observed of an object: every property it answers with, and the text of its
  own \<open>stringify\<close> if it has one. The result of a chain as its caller sees it: the exception,
  or the selector text.\<close>

definition view :: "heap \<Rightarrow> addr \<Rightarrow> (string \<Rightarrow> string option) \<times> string option" where
  "view h a = (get_prop h a, map_option (combined_stringify h) (get_method h a))"

definition outcome :: "error + heap \<times> addr \<Rightarrow> error + string" where
  "outcome r = (case r of Inl e \<Rightarrow> Inl e | Inr (h, a) \<Rightarrow> Inr (call_stringify h a))"

text \<open>The value of field \<open>k\<close> after calls that gave it the tokens \<open>ts\<close>, when it was
  \<open>old\<close> before: the class and pseudo-class fields grow, the other fields are overwritten.\<close>

definition field_after :: "string \<Rightarrow> string option \<Rightarrow> string list \<Rightarrow> string option" where
  "field_after k old ts =
     (if ts = [] then old
      else if k = ''cssClass'' then Some (str old @ concat (map (\<lambda>t. ''.'' @ t) ts))
      else if k = ''cssPseudoClass'' then Some (str old @ concat (map (\<lambda>t. '':'' @ t) ts))
      else Some (last ts))"

subsection \<open>Example objects\<close>

text \<open>The heap and the object left by \<open>cssSelectorBuilder.element('div').id('main')\<close>, and
  by \<open>cssSelectorBuilder.element('table')\<close> evaluated after it.\<close>

definition ex_div :: "heap \<times> addr" where
  "ex_div = projr (chain heap0 cssSelectorBuilder [Element ''div'', Id ''main''])"

definition ex_table :: "heap \<times> addr" where
  "ex_table = projr (chain (fst ex_div) cssSelectorBuilder [Element ''table''])"

text \<open>The object left by calling \<open>attr('href')\<close> on the first one, and the one left by
  \<open>cssSelectorBuilder.pseudoClass('hover')\<close>.\<close>

definition ex_href :: "heap \<times> addr" where
  "ex_href = projr (chain (fst ex_div) (snd ex_div) [Attr ''href''])"

definition ex_hover :: "heap \<times> addr" where
  "ex_hover = projr (chain heap0 cssSelectorBuilder [PseudoClass ''hover''])"

section \<open>Dates (04-date-tasks.js)\<close>

text \<open>
  A \<open>Date\<close> is modelled by the three readings the functions below take of it: the year of
  its local calendar date (\<open>getFullYear()\<close>), its hour in UTC (\<open>getUTCHours()\<close>, below 24)
  and its local minute (\<open>getMinutes()\<close>, below 60). An invalid \<open>Date\<close>, whose readings are
  \<open>NaN\<close>, has no year and is not part of the model.
\<close>

record date =
  getFullYear :: int
  getUTCHours :: nat
  getMinutes :: nat

subsection \<open>The constructor \<open>new Date(year, monthIndex, day)\<close>\<close>

text \<open>
  The part of the built-in constructor that \<open>isLeapYear\<close> relies on, after ECMA-262: a year
  from 0 to 99 stands for 1900 + year; the calendar is the proleptic Gregorian one, with
  \<open>DaysInYear\<close> as the standard defines it; a day past the end of the month rolls over into
  the next month. The model covers month indices 0 to 11 and days 1 to 31, where one
  roll-over is enough. The constructor and \<open>getDate()\<close> both work in local time, so the time
  zone plays no role.
\<close>

definition DaysInYear :: "int \<Rightarrow> nat" where
  "DaysInYear y =
     (if y mod 4 \<noteq> 0 then 365
      else if y mod 100 \<noteq> 0 then 366
      else if y mod 400 \<noteq> 0 then 365
      else 366)"

definition DaysInMonth :: "int \<Rightarrow> nat \<Rightarrow> nat" where
  "DaysInMonth y m =
     (if m = 1 then (if DaysInYear y = 366 then 29 else 28)
      else if m = 3 \<or> m = 5 \<or> m = 8 \<or> m = 10 then 30
      else 31)"

record calendar_date =
  year :: int
  month :: nat
  getDate :: nat

definition new_Date :: "int \<Rightarrow> nat \<Rightarrow> nat \<Rightarrow> calendar_date" where
  "new_Date y m dt =
     (let yr = (if 0 \<le> y \<and> y \<le> 99 then 1900 + y else y) in
      if dt \<le> DaysInMonth yr m then \<lparr>year = yr, month = m, getDate = dt\<rparr>
      else if m = 11 then \<lparr>year = yr + 1, month = 0, getDate = dt - DaysInMonth yr m\<rparr>
      else \<lparr>year = yr, month = m + 1, getDate = dt - DaysInMonth yr m\<rparr>)"

subsection \<open>isLeapYear (lines 56-63)\<close>

definition isLeapYear :: "date \<Rightarrow> bool" where
  "isLeapYear date =
     (let data = new_Date (getFullYear date) 1 29;
          tf = False
      in if getDate data = 29 then True else tf)"

text \<open>The rule of the specification: divisible by 4 and (not divisible by 100 or divisible
  by 400).\<close>

definition leap_rule :: "int \<Rightarrow> bool" where
  "leap_rule y = (4 dvd y \<and> (\<not> 100 dvd y \<or> 400 dvd y))"

subsection \<open>angleBetweenClockHands (lines 124-157)\<close>

text \<open>The statements of the function in their order; a variable that is assigned again is
  bound again. The two assignments under \<open>minutes === 60\<close> are the bindings of \<open>hours'\<close>
  and of \<open>minutes\<close> that follow it.\<close>

definition angleBetweenClockHands :: "date \<Rightarrow> number" where
  "angleBetweenClockHands date =
     (let hours = real (getUTCHours date);
          minutes = real (getMinutes date);
          hours = (if hours = 12 then 0 else hours);
          hours' = (if minutes = 60 then hours + 1 else hours);
          minutes = (if minutes = 60 then 0 else minutes);
          hours = (if hours' > 12 then hours' - 12 else hours');
          htom = hours * 5;
          res = 0;
          htom = htom + minutes * (5 / 60);
          htom = (if htom > 30 then htom - 30 else htom);
          minutes = (if minutes > 30 then minutes - 30 else minutes);
          res = (if htom > minutes then htom - minutes else res);
          res = (if minutes > htom then minutes - htom else res);
          result = (pi / 30) * res;
          result = (if result = 0.47996554429844085 then 0.4799655442984406 else result)
      in result)"

text \<open>The angle between the two hands as the specification describes it: the hour hand
  moves 30 degrees an hour and half a degree a minute, the minute hand 6 degrees a minute, and
  the angle is the shorter of the two arcs between them, in radians.\<close>

definition clock_angle :: "nat \<Rightarrow> nat \<Rightarrow> real" where
  "clock_angle h m =
     (let hour_hand = real (h mod 12) * 30 + real m / 2;
          minute_hand = real m * 6;
          d = \<bar>hour_hand - minute_hand\<bar>
      in min d (360 - d) * pi / 180)"

section \<open>Properties of the heap operations\<close>

lemma get_chain_append:
  "a < length h \<Longrightarrow> get_chain sel (h @ ext) a = get_chain sel h a"
proof (induction a rule: less_induct)
  case (less a)
  have l: "get_chain sel (h @ ext) a =
     (case sel (h ! a) of Some v \<Rightarrow> Some v
      | None \<Rightarrow> (case proto (h ! a) of None \<Rightarrow> None
                 | Some p \<Rightarrow> if p < a then get_chain sel (h @ ext) p else None))"
    using less.prems by (subst get_chain.simps) (simp add: nth_append split: option.splits)
  have r: "get_chain sel h a =
     (case sel (h ! a) of Some v \<Rightarrow> Some v
      | None \<Rightarrow> (case proto (h ! a) of None \<Rightarrow> None
                 | Some p \<Rightarrow> if p < a then get_chain sel h p else None))"
    using less.prems by (subst get_chain.simps) simp
  show ?case
    unfolding l r using less.IH less.prems
    by (auto split: option.splits)
qed

lemma get_chain_outside: "length h \<le> a \<Longrightarrow> get_chain sel h a = None"
  by (subst get_chain.simps) simp

lemma get_chain_last:
  "get_chain sel (h @ [ob]) (length h) =
     (case sel ob of Some v \<Rightarrow> Some v
      | None \<Rightarrow> (case proto ob of None \<Rightarrow> None | Some p \<Rightarrow> get_chain sel h p))"
  by (subst get_chain.simps)
     (auto simp: get_chain_append get_chain_outside split: option.splits)

lemma create_assign_eq:
  "create_assign h this =
     (h @ [\<lparr>proto = Some this,
            props = (if this < length h then props (h ! this) else Map.empty),
            own_stringify = (if this < length h then own_stringify (h ! this) else None)\<rparr>],
      length h)"
  by (auto simp: create_assign_def Object_create_def Object_assign_def obj_at_def nth_append
      split: option.splits)

lemma set_prop_last:
  "set_prop (h @ [ob]) (length h) k v = h @ [ob\<lparr>props := (props ob)(k \<mapsto> v)\<rparr>]"
  by (simp add: set_prop_def obj_at_def)

lemma set_stringify_last:
  "set_stringify (h @ [ob]) (length h) f = h @ [ob\<lparr>own_stringify := Some f\<rparr>]"
  by (simp add: set_stringify_def obj_at_def)

lemma get_chain_copy:
  assumes "sel ob = (if this < length h then sel (h ! this) else None)"
    and "proto ob = Some this"
  shows "get_chain sel (h @ [ob]) (length h) = get_chain sel h this"
proof (cases "this < length h")
  case False
  then show ?thesis
    using assms by (simp add: get_chain_last get_chain_outside)
next
  case True
  show ?thesis
  proof (cases "sel (h ! this)")
    case None
    then show ?thesis using assms True by (simp add: get_chain_last)
  next
    case (Some v)
    have "get_chain sel h this = Some v"
      using True Some by (subst get_chain.simps) simp
    then show ?thesis using assms True Some by (simp add: get_chain_last)
  qed
qed

lemma get_prop_create_assign:
  "create_assign h this = (h1, n) \<Longrightarrow> get_prop h1 n k = get_prop h this k"
  unfolding get_prop_def create_assign_eq
  by (auto intro!: get_chain_copy)

lemma get_method_create_assign:
  "create_assign h this = (h1, n) \<Longrightarrow> get_method h1 n = get_method h this"
  unfolding get_method_def create_assign_eq
  by (auto intro!: get_chain_copy)

lemma get_prop_set_prop_last:
  "get_prop (set_prop (h @ [ob]) (length h) k v) (length h) k' =
     (if k' = k then Some v else get_prop (h @ [ob]) (length h) k')"
  by (simp add: set_prop_last get_prop_def get_chain_last split: option.splits)

lemma get_method_set_prop_last:
  "get_method (set_prop (h @ [ob]) (length h) k v) (length h) = get_method (h @ [ob]) (length h)"
  by (simp add: set_prop_last get_method_def get_chain_last split: option.splits)

text \<open>What every successful fragment method does.\<close>

lemma derive:
  assumes "create_assign h this = (h1, n)" and "h' = set_prop h1 n k v"
  shows "n = length h \<and> (\<exists>ob. h' = h @ [ob])
    \<and> (\<forall>k'. get_prop h' n k' = (if k' = k then Some v else get_prop h this k'))
    \<and> get_method h' n = get_method h this"
proof -
  obtain ob where h1: "h1 = h @ [ob]" and n: "n = length h"
    using assms(1) unfolding create_assign_eq by auto
  have "\<exists>ob. h' = h @ [ob]"
    unfolding assms(2) h1 n set_prop_last by blast
  moreover have "get_prop h' n k' = (if k' = k then Some v else get_prop h this k')" for k'
    using get_prop_create_assign [OF assms(1), of k']
    unfolding assms(2) h1 n get_prop_set_prop_last by simp
  moreover have "get_method h' n = get_method h this"
    using get_method_create_assign [OF assms(1)]
    unfolding assms(2) h1 n get_method_set_prop_last by simp
  ultimately show ?thesis using n by blast
qed

lemma call_on_Inr:
  assumes "call_on h a c = Inr (h', n)"
  shows "n = length h \<and> (\<exists>ob. h' = h @ [ob])
     \<and> (\<forall>k. get_prop h' n k = (if k = field c then Some (written h a c) else get_prop h a k))
     \<and> get_method h' n = get_method h a"
proof (cases c)
  case (Element v)
  then obtain h1 where ca: "create_assign h a = (h1, n)" and h': "h' = set_prop h1 n ''cssElement'' v"
    using assms by (auto simp: element_def split: if_splits prod.splits)
  show ?thesis using derive [OF ca h'] Element by auto
next
  case (Id v)
  then obtain h1 where ca: "create_assign h a = (h1, n)" and h': "h' = set_prop h1 n ''cssId'' v"
    using assms by (auto simp: id'_def split: if_splits prod.splits)
  show ?thesis using derive [OF ca h'] Id by auto
next
  case (Class v)
  then obtain h1 where ca: "create_assign h a = (h1, n)"
    and h': "h' = set_prop h1 n ''cssClass'' (str (get_prop h1 n ''cssClass'') @ ''.'' @ v)"
    using assms by (auto simp: class'_def split: if_splits prod.splits)
  show ?thesis
    using derive [OF ca h'] Class get_prop_create_assign [OF ca, of "''cssClass''"] by auto
next
  case (Attr v)
  then obtain h1 where ca: "create_assign h a = (h1, n)" and h': "h' = set_prop h1 n ''cssAttr'' v"
    using assms by (auto simp: attr_def split: if_splits prod.splits)
  show ?thesis using derive [OF ca h'] Attr by auto
next
  case (PseudoClass v)
  then obtain h1 where ca: "create_assign h a = (h1, n)"
    and h': "h' = set_prop h1 n ''cssPseudoClass'' (str (get_prop h1 n ''cssPseudoClass'') @ '':'' @ v)"
    using assms by (auto simp: pseudoClass_def split: if_splits prod.splits)
  show ?thesis
    using derive [OF ca h'] PseudoClass get_prop_create_assign [OF ca, of "''cssPseudoClass''"]
    by auto
next
  case (PseudoElement v)
  then obtain h1 where ca: "create_assign h a = (h1, n)"
    and h': "h' = set_prop h1 n ''cssPseudoElement'' v"
    using assms by (auto simp: pseudoElement_def split: if_splits prod.splits)
  show ?thesis using derive [OF ca h'] PseudoElement by auto
qed

text \<open>When a call is rejected, in terms of presence.\<close>

lemma call_on_guard:
  "call_on h a c =
    (if (field c = ''cssElement'' \<or> field c = ''cssId'' \<or> field c = ''cssPseudoElement'')
        \<and> present h a (field c) then Inl DuplicateViolation
     else if list_ex (present h a) (later_kinds c) then Inl OrderViolation
     else call_on h a c)"
  by (cases c) (auto simp: element_def id'_def class'_def attr_def pseudoClass_def pseudoElement_def
      present_def later_kinds_def kind_order_def)

lemma call_on_succeeds:
  "\<not> ((field c = ''cssElement'' \<or> field c = ''cssId'' \<or> field c = ''cssPseudoElement'')
        \<and> present h a (field c)) \<Longrightarrow> \<not> list_ex (present h a) (later_kinds c)
   \<Longrightarrow> \<exists>h' n. call_on h a c = Inr (h', n)"
  by (cases c) (auto simp: element_def id'_def class'_def attr_def pseudoClass_def pseudoElement_def
      present_def later_kinds_def kind_order_def split: prod.splits)


lemma combined_stringify_append:
  "m < length h \<Longrightarrow> combined_stringify (h @ ext) m = combined_stringify h m"
  by (simp add: combined_stringify_def get_prop_def get_chain_append)

lemma wf_heap_iff:
  "wf_heap h \<longleftrightarrow> (\<forall>a m. a < length h \<and> own_stringify (h ! a) = Some m \<longrightarrow> m < length h)"
  unfolding wf_heap_def list_all_length by (auto split: option.splits)

lemma get_method_bound:
  assumes "wf_heap h"
  shows "get_method h a = Some m \<Longrightarrow> m < length h"
proof (induction a rule: less_induct)
  case (less a)
  have a: "a < length h"
    using less.prems get_chain_outside [of h a own_stringify]
    by (cases "a < length h") (auto simp: get_method_def)
  show ?case
  proof (cases "own_stringify (h ! a)")
    case (Some m')
    then have "get_method h a = Some m'"
      unfolding get_method_def using a by (subst get_chain.simps) simp
    then show ?thesis using assms a Some less.prems by (auto simp: wf_heap_iff)
  next
    case None
    then obtain p where "p < a" and "get_method h p = Some m"
      using less.prems a unfolding get_method_def
      by (subst (asm) get_chain.simps) (auto split: option.splits if_splits)
    then show ?thesis using less.IH by blast
  qed
qed

lemma wf_heap_snoc:
  assumes "wf_heap h" and "\<And>m. own_stringify ob = Some m \<Longrightarrow> m \<le> length h"
  shows "wf_heap (h @ [ob])"
  unfolding wf_heap_iff
proof (intro allI impI)
  fix a m
  assume am: "a < length (h @ [ob]) \<and> own_stringify ((h @ [ob]) ! a) = Some m"
  show "m < length (h @ [ob])"
  proof (cases "a < length h")
    case True
    then have "own_stringify (h ! a) = Some m" using am by (simp add: nth_append)
    then have "m < length h" using True assms(1) unfolding wf_heap_iff by blast
    then show ?thesis by simp
  next
    case False
    then have "a = length h" using am by simp
    then show ?thesis using am assms(2) [of m] by (simp add: less_Suc_eq_le)
  qed
qed

lemma call_on_wf:
  assumes "wf_heap h" and "call_on h a c = Inr (h', n)"
  shows "wf_heap h'"
proof -
  from call_on_Inr [OF assms(2)] obtain ob
    where n: "n = length h" and h': "h' = h @ [ob]" and m: "get_method h' n = get_method h a"
    by blast
  have "m \<le> length h" if "own_stringify ob = Some m" for m
  proof -
    have "get_method h' n = Some m"
      unfolding get_method_def h' n get_chain_last using that by simp
    then show ?thesis using m get_method_bound [OF assms(1), of a m] by simp
  qed
  then show ?thesis unfolding h' by (rule wf_heap_snoc [OF assms(1)])
qed

lemma view_append:
  assumes "wf_heap h" and "a < length h"
  shows "view (h @ ext) a = view h a"
proof -
  have p: "get_prop (h @ ext) a = get_prop h a"
    using assms(2) by (auto simp: get_prop_def get_chain_append)
  have m: "get_method (h @ ext) a = get_method h a"
    using assms(2) by (simp add: get_method_def get_chain_append)
  show ?thesis
    unfolding view_def p m
    using get_method_bound [OF assms(1), of a]
    by (cases "get_method h a") (simp_all add: combined_stringify_append)
qed

lemma stringify_cong:
  "get_prop h a = get_prop h' a' \<Longrightarrow> stringify h a = stringify h' a'"
  by (simp add: stringify_def)

lemma call_stringify_view:
  assumes "view h a = view h' a'"
  shows "call_stringify h a = call_stringify h' a'"
proof -
  have p: "get_prop h a = get_prop h' a'"
    and m: "map_option (combined_stringify h) (get_method h a)
            = map_option (combined_stringify h') (get_method h' a')"
    using assms by (simp_all add: view_def)
  show ?thesis
    using m stringify_cong [OF p]
    by (cases "get_method h a"; cases "get_method h' a'") (simp_all add: call_stringify_def)
qed

lemma written_cong:
  "get_prop h a = get_prop h' a' \<Longrightarrow> written h a c = written h' a' c"
  by (cases c) simp_all

lemma view_call_on:
  assumes "wf_heap h" and "call_on h a c = Inr (h1, n)"
  shows "view h1 n = ((fst (view h a))(field c \<mapsto> written h a c), snd (view h a))"
proof -
  from call_on_Inr [OF assms(2)] obtain ob
    where h1: "h1 = h @ [ob]"
      and p: "\<And>k. get_prop h1 n k = (if k = field c then Some (written h a c) else get_prop h a k)"
      and m: "get_method h1 n = get_method h a"
    by blast
  have "get_prop h1 n = (get_prop h a)(field c \<mapsto> written h a c)"
    using p by auto
  moreover have "map_option (combined_stringify h1) (get_method h a)
                 = map_option (combined_stringify h) (get_method h a)"
    using get_method_bound [OF assms(1), of a]
    by (cases "get_method h a") (simp_all add: h1 combined_stringify_append)
  ultimately show ?thesis by (simp add: view_def m)
qed

lemma call_on_rejects_cong:
  assumes "get_prop h a = get_prop h' a'" and "call_on h a c = Inl e"
  shows "call_on h' a' c = Inl e"
proof (cases c)
  case (Element v)
  then show ?thesis using assms by (simp add: element_def split: if_splits prod.splits)
next
  case (Id v)
  then show ?thesis using assms by (simp add: id'_def split: if_splits prod.splits)
next
  case (Class v)
  then show ?thesis using assms by (simp add: class'_def split: if_splits prod.splits)
next
  case (Attr v)
  then show ?thesis using assms by (simp add: attr_def split: if_splits prod.splits)
next
  case (PseudoClass v)
  then show ?thesis using assms by (simp add: pseudoClass_def split: if_splits prod.splits)
next
  case (PseudoElement v)
  then show ?thesis using assms by (simp add: pseudoElement_def split: if_splits prod.splits)
qed

lemma call_on_sim:
  assumes "wf_heap h" and "wf_heap h'" and v: "view h a = view h' a'"
  shows "(\<exists>e. call_on h a c = Inl e \<and> call_on h' a' c = Inl e)
       \<or> (\<exists>h1 n1 h1' n1'. call_on h a c = Inr (h1, n1) \<and> call_on h' a' c = Inr (h1', n1')
            \<and> view h1 n1 = view h1' n1')"
proof -
  have p: "get_prop h a = get_prop h' a'" using v by (simp add: view_def)
  show ?thesis
  proof (cases "call_on h a c")
    case (Inl e)
    then show ?thesis using call_on_rejects_cong [OF p Inl] by simp
  next
    case (Inr r)
    obtain h1 n1 where r: "call_on h a c = Inr (h1, n1)" using Inr by (cases r) simp
    show ?thesis
    proof (cases "call_on h' a' c")
      case (Inl e)
      then show ?thesis using call_on_rejects_cong [OF p [symmetric] Inl] r by simp
    next
      case (Inr r')
      obtain h1' n1' where r': "call_on h' a' c = Inr (h1', n1')" using Inr by (cases r') simp
      have "view h1 n1 = view h1' n1'"
        unfolding view_call_on [OF assms(1) r] view_call_on [OF assms(2) r']
        using v written_cong [OF p, of c] by simp
      then show ?thesis using r r' by simp
    qed
  qed
qed

lemma chain_sim:
  "wf_heap h \<Longrightarrow> wf_heap h' \<Longrightarrow> view h a = view h' a'
   \<Longrightarrow> outcome (chain h a cs) = outcome (chain h' a' cs)"
proof (induction cs arbitrary: h a h' a')
  case Nil
  show ?case using call_stringify_view [OF Nil.prems(3)] by (simp add: outcome_def)
next
  case (Cons c cs)
  from call_on_sim [OF Cons.prems, of c] show ?case
  proof (elim disjE exE conjE)
    fix e assume "call_on h a c = Inl e" "call_on h' a' c = Inl e"
    then show ?thesis by (simp add: outcome_def)
  next
    fix h1 n1 h1' n1'
    assume r: "call_on h a c = Inr (h1, n1)" and r': "call_on h' a' c = Inr (h1', n1')"
      and v: "view h1 n1 = view h1' n1'"
    have "outcome (chain h1 n1 cs) = outcome (chain h1' n1' cs)"
      using Cons.IH [OF call_on_wf [OF Cons.prems(1) r] call_on_wf [OF Cons.prems(2) r'] v] .
    then show ?thesis using r r' by simp
  qed
qed

lemma chain_extends:
  "chain h a cs = Inr (h', a') \<Longrightarrow> \<exists>ext. h' = h @ ext"
proof (induction cs arbitrary: h a)
  case Nil
  then show ?case by simp
next
  case (Cons c cs)
  then obtain h1 n1 where r: "call_on h a c = Inr (h1, n1)" and rest: "chain h1 n1 cs = Inr (h', a')"
    by (auto split: sum.splits)
  from call_on_Inr [OF r] obtain ob where "h1 = h @ [ob]" by blast
  moreover from Cons.IH [OF rest] obtain ext where "h' = h1 @ ext" by blast
  ultimately show ?case by simp
qed

lemma chain_wf:
  "wf_heap h \<Longrightarrow> chain h a cs = Inr (h', a') \<Longrightarrow> wf_heap h'"
proof (induction cs arbitrary: h a)
  case Nil
  then show ?case by simp
next
  case (Cons c cs)
  then obtain h1 n1 where r: "call_on h a c = Inr (h1, n1)" and rest: "chain h1 n1 cs = Inr (h', a')"
    by (auto split: sum.splits)
  show ?case using Cons.IH [OF call_on_wf [OF Cons.prems(1) r] rest] .
qed

lemma chain_result_allocated:
  "a < length h \<Longrightarrow> chain h a cs = Inr (h', a') \<Longrightarrow> a' < length h'"
proof (induction cs arbitrary: h a)
  case Nil
  then show ?case by simp
next
  case (Cons c cs)
  then obtain h1 n1 where r: "call_on h a c = Inr (h1, n1)" and rest: "chain h1 n1 cs = Inr (h', a')"
    by (auto split: sum.splits)
  from call_on_Inr [OF r] have "n1 < length h1" by auto
  then show ?case using Cons.IH rest by blast
qed

lemma wf_heap0: "wf_heap heap0"
  by (simp add: wf_heap_def heap0_def new_CssSelectorBuilderClass_def)

lemma fresh_builder0: "fresh_builder heap0 cssSelectorBuilder"
  by code_simp

lemma combine_eq:
  "\<exists>ob. combine h this A c B = (h @ [ob], length h)
     \<and> proto ob = Some this \<and> own_stringify ob = Some (length h)
     \<and> props ob ''s1'' = Some (call_stringify (h @ [\<lparr>proto = Some this, props = Map.empty, own_stringify = None\<rparr>]) A)
     \<and> props ob ''c'' = Some c
     \<and> (\<exists>ob'. props ob ''s2'' = Some (call_stringify (h @ [ob']) B))"
  by (simp add: combine_def Object_create_def set_prop_last set_stringify_last Let_def) blast

lemma call_stringify_append:
  "wf_heap h \<Longrightarrow> a < length h \<Longrightarrow> call_stringify (h @ ext) a = call_stringify h a"
  by (rule call_stringify_view) (rule view_append)

lemma combine_wf:
  assumes "wf_heap h" and "combine h this A c B = (h', n)"
  shows "wf_heap h'"
proof -
  from combine_eq [of h this A c B] assms(2) obtain ob
    where "h' = h @ [ob]" and "own_stringify ob = Some (length h)" by auto
  then show ?thesis using wf_heap_snoc [OF assms(1), of ob] by simp
qed

lemma combine_stringify:
  assumes "wf_heap h" and "A < length h" and "B < length h"
    and "combine h this A c B = (h', n)"
  shows "call_stringify h' n = call_stringify h A @ '' '' @ c @ '' '' @ call_stringify h B"
proof -
  from combine_eq [of h this A c B] assms(4) obtain ob ob'
    where h': "h' = h @ [ob]" and n: "n = length h"
      and own: "own_stringify ob = Some (length h)"
      and s1: "props ob ''s1'' = Some (call_stringify (h @ [\<lparr>proto = Some this, props = Map.empty, own_stringify = None\<rparr>]) A)"
      and c: "props ob ''c'' = Some c"
      and s2: "props ob ''s2'' = Some (call_stringify (h @ [ob']) B)"
    by auto
  have m: "get_method h' n = Some n"
    unfolding get_method_def h' n get_chain_last using own by simp
  have p: "get_prop h' n k = Some v" if "props ob k = Some v" for k v
    unfolding get_prop_def h' n get_chain_last using that by simp
  have "call_stringify h' n = combined_stringify h' n"
    by (simp add: call_stringify_def m)
  then show ?thesis
    by (simp add: combined_stringify_def p [OF s1] p [OF c] p [OF s2]
        call_stringify_append [OF assms(1)] assms(2,3))
qed


lemma field_cases:
  "field c = ''cssClass'' \<longleftrightarrow> (\<exists>v. c = Class v)"
  "field c = ''cssPseudoClass'' \<longleftrightarrow> (\<exists>v. c = PseudoClass v)"
  by (cases c; simp)+

lemma written_eq:
  "written h a c =
     (if field c = ''cssClass'' then str (get_prop h a ''cssClass'') @ ''.'' @ token c
      else if field c = ''cssPseudoClass'' then str (get_prop h a ''cssPseudoClass'') @ '':'' @ token c
      else token c)"
  by (cases c) simp_all

lemma field_after_Cons:
  "field_after k (Some (if k = ''cssClass'' then str old @ ''.'' @ t
                        else if k = ''cssPseudoClass'' then str old @ '':'' @ t else t)) ts
   = field_after k old (t # ts)"
  by (simp add: field_after_def)

lemma chain_get_prop:
  "chain h a cs = Inr (h', a') \<Longrightarrow>
     get_prop h' a' k = field_after k (get_prop h a k) (tokens k cs)
     \<and> get_method h' a' = get_method h a"
proof (induction cs arbitrary: h a)
  case Nil
  then show ?case by (simp add: field_after_def tokens_def)
next
  case (Cons c cs)
  then obtain h1 n1 where r: "call_on h a c = Inr (h1, n1)" and rest: "chain h1 n1 cs = Inr (h', a')"
    by (auto split: sum.splits)
  from call_on_Inr [OF r]
  have p: "get_prop h1 n1 k = (if k = field c then Some (written h a c) else get_prop h a k)"
    and m: "get_method h1 n1 = get_method h a"
    by auto
  have ih: "get_prop h' a' k = field_after k (get_prop h1 n1 k) (tokens k cs)"
    and ihm: "get_method h' a' = get_method h1 n1"
    using Cons.IH [OF rest] by auto
  show ?case
  proof (cases "field c = k")
    case False
    then show ?thesis using ih ihm p m by (auto simp: tokens_def)
  next
    case True
    have t: "tokens k (c # cs) = token c # tokens k cs"
      using True by (simp add: tokens_def)
    have "get_prop h1 n1 k = Some (if k = ''cssClass'' then str (get_prop h a k) @ ''.'' @ token c
                        else if k = ''cssPseudoClass'' then str (get_prop h a k) @ '':'' @ token c
                        else token c)"
      using p True by (auto simp: written_eq)
    then show ?thesis
      unfolding t ih using ihm m by (simp only: field_after_Cons)
  qed
qed

lemma append_single_eta: "(@) [x] = (#) x"
  by (rule ext) simp

lemma fresh_builder_fields:
  assumes "fresh_builder h b"
  shows "get_prop h b ''cssElement'' = Some []" "get_prop h b ''cssId'' = Some []"
    "get_prop h b ''cssClass'' = Some []" "get_prop h b ''cssAttr'' = Some []"
    "get_prop h b ''cssPseudoClass'' = Some []" "get_prop h b ''cssPseudoElement'' = Some []"
    "get_method h b = None"
  using assms by (simp_all add: fresh_builder_def kind_order_def)

lemma chain_render:
  assumes "fresh_builder h b" and "chain h b cs = Inr (h', a)"
  shows "call_stringify h' a = spec_render cs"
proof -
  note f = fresh_builder_fields [OF assms(1)]
  note g = chain_get_prop [OF assms(2)]
  have m: "get_method h' a = None" using g [of "''cssElement''"] f by simp
  have e: "get_prop h' a ''cssElement'' = Some (single ''cssElement'' cs)"
    using g [of "''cssElement''"] f by (simp add: field_after_def single_def)
  have i: "get_prop h' a ''cssId'' = Some (single ''cssId'' cs)"
    using g [of "''cssId''"] f by (simp add: field_after_def single_def)
  have c: "get_prop h' a ''cssClass'' = Some (concat (map (\<lambda>t. ''.'' @ t) (tokens ''cssClass'' cs)))"
    using g [of "''cssClass''"] f
    by (cases "tokens ''cssClass'' cs = []") (simp_all add: field_after_def append_single_eta)
  have at: "get_prop h' a ''cssAttr'' = Some (single ''cssAttr'' cs)"
    using g [of "''cssAttr''"] f by (simp add: field_after_def single_def)
  have pc: "get_prop h' a ''cssPseudoClass'' = Some (concat (map (\<lambda>t. '':'' @ t) (tokens ''cssPseudoClass'' cs)))"
    using g [of "''cssPseudoClass''"] f
    by (cases "tokens ''cssPseudoClass'' cs = []") (simp_all add: field_after_def append_single_eta)
  have pe: "get_prop h' a ''cssPseudoElement'' = Some (single ''cssPseudoElement'' cs)"
    using g [of "''cssPseudoElement''"] f by (simp add: field_after_def single_def)
  have "call_stringify h' a = stringify h' a"
    by (simp add: call_stringify_def m)
  also have "\<dots> = spec_render cs"
    unfolding stringify_def spec_render_def e i c at pc pe by (simp add: Let_def append_single_eta)
  finally show ?thesis .
qed

lemma call_on_get_prop:
  "call_on h a c = Inr (h', n) \<Longrightarrow>
     get_prop h' n k = (if k = field c then Some (written h a c) else get_prop h a k)"
  using call_on_Inr by blast

lemma call_on_duplicate:
  "present h a (field c) \<Longrightarrow>
   field c = ''cssElement'' \<or> field c = ''cssId'' \<or> field c = ''cssPseudoElement''
   \<Longrightarrow> call_on h a c = Inl DuplicateViolation"
  by (cases c) (simp_all add: element_def id'_def pseudoElement_def present_def)

lemma call_on_order:
  "list_ex (present h a) (later_kinds c) \<Longrightarrow>
   \<not> ((field c = ''cssElement'' \<or> field c = ''cssId'') \<and> present h a (field c))
   \<Longrightarrow> call_on h a c = Inl OrderViolation"
  by (cases c)
     (auto simp: element_def id'_def class'_def attr_def pseudoClass_def pseudoElement_def
       present_def later_kinds_def kind_order_def)

lemma written_present:
  "token c \<noteq> [] \<or> field c = ''cssClass'' \<or> field c = ''cssPseudoClass''
   \<Longrightarrow> written h a c \<noteq> []"
  by (cases c) auto

lemma call_on_present_mono:
  assumes "call_on h a c = Inr (h', n)" and "present h a k" and "k \<noteq> ''cssAttr''"
  shows "present h' n k"
proof (cases "k = field c")
  case False
  then show ?thesis using call_on_get_prop [OF assms(1), of k] assms(2) by (simp add: present_def)
next
  case True
  have "field c = ''cssClass'' \<or> field c = ''cssPseudoClass''"
    using call_on_duplicate [of h a c] assms True by (cases c) auto
  then have "written h a c \<noteq> []" by (simp add: written_present)
  then show ?thesis using call_on_get_prop [OF assms(1), of k] True by (simp add: present_def)
qed

lemma chain_present_mono:
  "chain h a cs = Inr (h', a') \<Longrightarrow> present h a k \<Longrightarrow> k \<noteq> ''cssAttr'' \<Longrightarrow> present h' a' k"
proof (induction cs arbitrary: h a)
  case Nil
  then show ?case by simp
next
  case (Cons c cs)
  then obtain h1 n1 where r: "call_on h a c = Inr (h1, n1)" and rest: "chain h1 n1 cs = Inr (h', a')"
    by (auto split: sum.splits)
  show ?case
    using Cons.IH [OF rest call_on_present_mono [OF r Cons.prems(2,3)] Cons.prems(3)] .
qed

lemma chain_present:
  "chain h a cs = Inr (h', a') \<Longrightarrow> c \<in> set cs \<Longrightarrow> field c \<noteq> ''cssAttr''
   \<Longrightarrow> token c \<noteq> [] \<or> field c = ''cssClass'' \<or> field c = ''cssPseudoClass''
   \<Longrightarrow> present h' a' (field c)"
proof (induction cs arbitrary: h a)
  case Nil
  then show ?case by simp
next
  case (Cons d cs)
  then obtain h1 n1 where r: "call_on h a d = Inr (h1, n1)" and rest: "chain h1 n1 cs = Inr (h', a')"
    by (auto split: sum.splits)
  show ?case
  proof (cases "c = d")
    case True
    have "present h1 n1 (field c)"
      using call_on_get_prop [OF r, of "field c"] written_present [OF Cons.prems(4), of h a] True
      by (simp add: present_def)
    then show ?thesis by (rule chain_present_mono [OF rest _ Cons.prems(3)])
  next
    case False
    then have "c \<in> set cs" using Cons.prems(2) by simp
    then show ?thesis by (rule Cons.IH [OF rest _ Cons.prems(3,4)])
  qed
qed

lemma later_kinds_simps:
  "later_kinds (Element v) = [''cssId'', ''cssClass'', ''cssAttr'', ''cssPseudoClass'', ''cssPseudoElement'']"
  "later_kinds (Id v) = [''cssClass'', ''cssAttr'', ''cssPseudoClass'', ''cssPseudoElement'']"
  "later_kinds (Class v) = [''cssAttr'', ''cssPseudoClass'', ''cssPseudoElement'']"
  "later_kinds (Attr v) = [''cssPseudoClass'', ''cssPseudoElement'']"
  "later_kinds (PseudoClass v) = [''cssPseudoElement'']"
  "later_kinds (PseudoElement v) = []"
  by (simp_all add: later_kinds_def kind_order_def)

lemma chain_attr_present:
  assumes "chain h a cs = Inr (h', a')" and "single ''cssAttr'' cs \<noteq> []"
  shows "present h' a' ''cssAttr''"
proof -
  have "tokens ''cssAttr'' cs \<noteq> []" using assms(2) by (auto simp: single_def)
  then show ?thesis
    using chain_get_prop [OF assms(1), of "''cssAttr''"] assms(2)
    by (simp add: field_after_def single_def present_def)
qed

lemma chain_pseudoClass_present:
  assumes "chain h a cs = Inr (h', a')" and "tokens ''cssPseudoClass'' cs \<noteq> []"
  shows "present h' a' ''cssPseudoClass''"
proof -
  from assms(2) obtain c where "c \<in> set cs" and "field c = ''cssPseudoClass''"
    by (auto simp: tokens_def filter_empty_conv)
  then show ?thesis using chain_present [OF assms(1), of c] by simp
qed

lemma tokens_snoc:
  "tokens k (cs @ [c]) = tokens k cs @ (if field c = k then [token c] else [])"
  by (simp add: tokens_def)

lemma tokens_filter:
  "tokens k (filter (\<lambda>x. field x \<noteq> f) cs) = (if k = f then [] else tokens k cs)"
proof (cases "k = f")
  case True
  then show ?thesis by (simp add: tokens_def filter_empty_conv)
next
  case False
  have "filter (\<lambda>c. field c = k) (filter (\<lambda>x. field x \<noteq> f) cs) = filter (\<lambda>c. field c = k) cs"
    using False by (induction cs) auto
  then show ?thesis using False by (simp add: tokens_def)
qed

lemma single_snoc_empty:
  "token c = [] \<Longrightarrow> single k (cs @ [c]) = (if field c = k then [] else single k cs)"
  by (simp add: single_def tokens_snoc)

lemma single_filter:
  "single k (filter (\<lambda>x. field x \<noteq> f) cs) = (if k = f then [] else single k cs)"
  by (simp add: single_def tokens_filter)

lemma spec_render_empty_token:
  assumes "token c = []" and "field c \<noteq> ''cssClass''" and "field c \<noteq> ''cssPseudoClass''"
  shows "spec_render (cs @ [c]) = spec_render (filter (\<lambda>x. field x \<noteq> field c) cs)"
proof -
  let ?ds = "filter (\<lambda>x. field x \<noteq> field c) cs"
  have s: "single k (cs @ [c]) = single k ?ds" for k
    unfolding single_snoc_empty [OF assms(1)] single_filter by auto
  have t1: "tokens ''cssClass'' (cs @ [c]) = tokens ''cssClass'' ?ds"
    unfolding tokens_snoc tokens_filter using assms(2) by auto
  have t2: "tokens ''cssPseudoClass'' (cs @ [c]) = tokens ''cssPseudoClass'' ?ds"
    unfolding tokens_snoc tokens_filter using assms(3) by auto
  show ?thesis
    unfolding spec_render_def s t1 t2 ..
qed

lemma rejected_by_present_kind:
  assumes "call_on h a d = Inl e"
  shows "list_ex (present h a) kind_order"
proof -
  have "((field d = ''cssElement'' \<or> field d = ''cssId'' \<or> field d = ''cssPseudoElement'')
        \<and> present h a (field d)) \<or> list_ex (present h a) (later_kinds d)"
    using call_on_succeeds [of d h a] assms by auto
  then show ?thesis
    by (cases d) (auto simp: later_kinds_simps kind_order_def)
qed

lemma element_empty_succeeds:
  "\<not> isl (chain heap0 cssSelectorBuilder [Element [], Element ''x''])"
  by code_simp

lemma element_empty_then_element:
  "outcome (chain heap0 cssSelectorBuilder [Element [], Element ''x'']) = Inr ''x''"
  using chain_render [OF fresh_builder0, of "[Element [], Element ''x'']"] element_empty_succeeds
  by (cases "chain heap0 cssSelectorBuilder [Element [], Element ''x'']")
     (auto simp: outcome_def spec_render_def single_def tokens_def)

section \<open>Properties of the date functions\<close>

lemma DaysInYear_leap_rule: "DaysInYear y = 366 \<longleftrightarrow> leap_rule y"
proof -
  have "100 dvd y \<Longrightarrow> 4 dvd y" and "400 dvd y \<Longrightarrow> 100 dvd y"
    by (auto elim: dvd_trans [rotated])
  then show ?thesis
    by (auto simp: DaysInYear_def leap_rule_def mod_eq_0_iff_dvd)
qed

lemma isLeapYear_eq:
  "isLeapYear d = leap_rule (if 0 \<le> getFullYear d \<and> getFullYear d \<le> 99
                              then 1900 + getFullYear d else getFullYear d)"
  unfolding DaysInYear_leap_rule [symmetric]
  by (simp add: isLeapYear_def new_Date_def DaysInMonth_def Let_def)

lemma leap_rule_two_digit:
  assumes "0 < y" and "y \<le> 99"
  shows "leap_rule (1900 + y) = leap_rule y"
proof -
  have a: "\<not> 100 dvd y" using assms by (intro zdvd_not_zless) simp_all
  have "(100::int) dvd 1900" by simp
  then have b: "100 dvd 1900 + y \<longleftrightarrow> 100 dvd y" by (rule dvd_add_right_iff)
  have "(4::int) dvd 1900" by simp
  then have c: "4 dvd 1900 + y \<longleftrightarrow> 4 dvd y" by (rule dvd_add_right_iff)
  show ?thesis unfolding leap_rule_def b c using a by simp
qed

lemma isLeapYear_rule:
  "getFullYear d \<noteq> 0 \<Longrightarrow> isLeapYear d = leap_rule (getFullYear d)"
  unfolding isLeapYear_eq using leap_rule_two_digit [of "getFullYear d"] by auto

lemma examples_leap:
  "isLeapYear \<lparr>getFullYear = 2000, getUTCHours = 0, getMinutes = 0\<rparr>"
  "isLeapYear \<lparr>getFullYear = 2012, getUTCHours = 0, getMinutes = 0\<rparr>"
  "\<not> isLeapYear \<lparr>getFullYear = 1900, getUTCHours = 0, getMinutes = 0\<rparr>"
  "\<not> isLeapYear \<lparr>getFullYear = 2001, getUTCHours = 0, getMinutes = 0\<rparr>"
  "\<not> isLeapYear \<lparr>getFullYear = 2015, getUTCHours = 0, getMinutes = 0\<rparr>"
  by (simp_all add: isLeapYear_def new_Date_def DaysInMonth_def DaysInYear_def)

lemma pi_ge_three: "3 \<le> pi"
proof -
  have "sin (pi / 6) \<le> pi / 6" by (rule sin_x_le_x) simp
  then show ?thesis by (simp add: sin_30)
qed

lemma angle_in_range:
  assumes "getUTCHours d < 24" and "getMinutes d < 60"
  shows "0 \<le> angleBetweenClockHands d \<and> angleBetweenClockHands d \<le> pi"
proof -
  define h0 where "h0 = (if real (getUTCHours d) = 12 then 0 else real (getUTCHours d))"
  define h1 where "h1 = (if h0 > 12 then h0 - 12 else h0)"
  define m0 where "m0 = real (getMinutes d)"
  define ht where "ht = h1 * 5 + m0 * (5 / 60)"
  define ht' where "ht' = (if ht > 30 then ht - 30 else ht)"
  define m1 where "m1 = (if m0 > 30 then m0 - 30 else m0)"
  define res where "res = (if m1 > ht' then m1 - ht' else if ht' > m1 then ht' - m1 else 0)"
  have m60: "real (getMinutes d) \<noteq> 60" using assms(2) by simp
  have eq: "angleBetweenClockHands d =
      (if pi / 30 * res = 0.47996554429844085 then 0.4799655442984406 else pi / 30 * res)"
    unfolding angleBetweenClockHands_def res_def m1_def ht'_def ht_def h1_def h0_def m0_def
    by (simp only: Let_def m60 if_False)
  have h1: "0 \<le> h1 \<and> h1 \<le> 11"
  proof -
    have "getUTCHours d = 12 \<or> getUTCHours d \<le> 11 \<or> (13 \<le> getUTCHours d \<and> getUTCHours d \<le> 23)"
      using assms(1) by linarith
    then show ?thesis
      unfolding h1_def h0_def by (elim disjE) auto
  qed
  have m0: "0 \<le> m0 \<and> m0 \<le> 59"
    using assms(2) unfolding m0_def by auto
  have ht: "0 \<le> ht \<and> ht < 60" using h1 m0 unfolding ht_def by simp
  have ht': "0 \<le> ht' \<and> ht' \<le> 30" using ht unfolding ht'_def by simp
  have m1: "0 \<le> m1 \<and> m1 \<le> 30" using m0 unfolding m1_def by simp
  have res: "0 \<le> res \<and> res \<le> 30" using ht' m1 unfolding res_def by simp
  have lo: "0 \<le> pi / 30 * res" using res by simp
  have "pi / 30 * res \<le> pi / 30 * 30"
    using res by (intro mult_left_mono) simp_all
  then have hi: "pi / 30 * res \<le> pi" by simp
  have c: "(0::real) \<le> 0.4799655442984406 \<and> 0.4799655442984406 \<le> pi"
    using pi_ge_three by simp
  show ?thesis unfolding eq using lo hi c by simp
qed

section \<open>Results\<close>

subsection \<open>Rectangle\<close>

text \<open>
  C1 (as amended). For every rectangle returned by \<open>Rectangle(width, height)\<close>, every call to
  \<open>getArea()\<close> returns the product of the two constructor arguments; assigning to the
  \<open>width\<close> or \<open>height\<close> field of the returned object afterwards changes the field and not the
  value \<open>getArea()\<close> returns.

  As stated, the claim has \<open>getArea()\<close> read the fields at call time. After 5 is assigned to
  the width of \<open>Rectangle(10, 20)\<close>, \<open>getArea()\<close> still returns 200, while the fields
  multiply to 100.
\<close>

theorem Rectangle_getArea_captures_arguments:
  "getArea ((Rectangle w h)\<lparr>width := w', height := h'\<rparr>) () = w * h
   \<and> getArea (Rectangle w h) () = w * h
   \<and> width (Rectangle w h) = w \<and> height (Rectangle w h) = h"
  by (simp add: Rectangle_def)

theorem Rectangle_getArea_ignores_mutation_counterexample:
  "getArea ((Rectangle 10 20)\<lparr>width := 5\<rparr>) ()
     \<noteq> width ((Rectangle 10 20)\<lparr>width := 5\<rparr>) * height ((Rectangle 10 20)\<lparr>width := 5\<rparr>)"
  by (simp add: Rectangle_def)

subsection \<open>Builder calls never mutate\<close>

text \<open>
  C2. In a well-formed heap, every builder operation (the six fragment methods, as
  \<open>call_on\<close>, and \<open>combine\<close>), called on any object with any argument, returns a new
  object: the heap grows by exactly one object, the returned address is that of the object
  added, and the objects allocated before are left as they were, so every property of an
  earlier object \<open>b\<close>, its fragment fields among them, and its rendering are unchanged. The
  object a fragment method returns answers with the properties of the object the method was
  called on, but for the field the call writes, and with the same \<open>stringify\<close>; the object
  \<open>combine\<close> returns has its own \<open>stringify\<close> and holds the combinator. Two chains started
  from the same object \<open>b\<close> do not affect each other: the result of a chain is an allocated
  object; after a first chain from \<open>b\<close>, a second chain from \<open>b\<close> has the outcome (exception
  or selector text) it has without the first, and the result of the first chain renders the
  same after the second.
\<close>

theorem builder_calls_never_mutate:
  assumes "wf_heap h" and "b < length h"
  shows "(call_on h this c = Inr (h', n) \<longrightarrow>
            n = length h \<and> length h' = Suc (length h) \<and> n < length h'
            \<and> take (length h) h' = h
            \<and> get_prop h' n = (get_prop h this)(field c \<mapsto> written h this c)
            \<and> get_method h' n = get_method h this
            \<and> get_prop h' b = get_prop h b \<and> call_stringify h' b = call_stringify h b)
       \<and> (combine h this A comb B = (h'', n') \<longrightarrow>
            n' = length h \<and> length h'' = Suc (length h) \<and> n' < length h''
            \<and> take (length h) h'' = h
            \<and> get_method h'' n' = Some n' \<and> get_prop h'' n' ''c'' = Some comb
            \<and> get_prop h'' b = get_prop h b \<and> call_stringify h'' b = call_stringify h b)
       \<and> (chain h b cs = Inr (hc, ac) \<longrightarrow>
            ac < length hc
            \<and> outcome (chain hc b ds) = outcome (chain h b ds)
            \<and> (chain hc b ds = Inr (he, ae) \<longrightarrow> call_stringify he ac = call_stringify hc ac))"
proof (intro conjI impI)
  have old: "take (length h) (h @ ext) = h \<and> get_prop (h @ ext) b = get_prop h b
      \<and> call_stringify (h @ ext) b = call_stringify h b" for ext
    using view_append [OF assms, of ext] call_stringify_append [OF assms, of ext]
    by (simp add: view_def)
  {
    assume r: "call_on h this c = Inr (h', n)"
    from call_on_Inr [OF r] obtain ob where n: "n = length h" and h': "h' = h @ [ob]"
      and m: "get_method h' n = get_method h this"
      by blast
    show "n = length h" by (rule n)
    show "length h' = Suc (length h)" by (simp add: h')
    show "n < length h'" by (simp add: n h')
    show "get_prop h' n = (get_prop h this)(field c \<mapsto> written h this c)"
      using call_on_get_prop [OF r] by auto
    show "get_method h' n = get_method h this" by (rule m)
    show "take (length h) h' = h" and "get_prop h' b = get_prop h b"
      and "call_stringify h' b = call_stringify h b"
      using old [of "[ob]"] by (simp_all add: h')
  }
  {
    assume "combine h this A comb B = (h'', n')"
    with combine_eq [of h this A comb B] obtain ob where n': "n' = length h"
      and h'': "h'' = h @ [ob]" and own: "own_stringify ob = Some (length h)"
      and pc: "props ob ''c'' = Some comb"
      by auto
    show "n' = length h" by (rule n')
    show "length h'' = Suc (length h)" by (simp add: h'')
    show "n' < length h''" by (simp add: n' h'')
    show "get_method h'' n' = Some n'"
      unfolding get_method_def h'' n' get_chain_last using own by simp
    show "get_prop h'' n' ''c'' = Some comb"
      unfolding get_prop_def h'' n' get_chain_last using pc by simp
    show "take (length h) h'' = h" and "get_prop h'' b = get_prop h b"
      and "call_stringify h'' b = call_stringify h b"
      using old [of "[ob]"] by (simp_all add: h'')
  }
  assume c1: "chain h b cs = Inr (hc, ac)"
  from chain_extends [OF c1] obtain ext where hc: "hc = h @ ext" by blast
  have wfc: "wf_heap hc" by (rule chain_wf [OF assms(1) c1])
  show ac: "ac < length hc" by (rule chain_result_allocated [OF assms(2) c1])
  have "view hc b = view h b" unfolding hc by (rule view_append [OF assms])
  then show "outcome (chain hc b ds) = outcome (chain h b ds)"
    by (rule chain_sim [OF wfc assms(1)])
  assume c2: "chain hc b ds = Inr (he, ae)"
  from chain_extends [OF c2] obtain ext' where he: "he = hc @ ext'" by blast
  show "call_stringify he ac = call_stringify hc ac"
    unfolding he by (rule call_stringify_append [OF wfc ac])
qed

theorem builder_calls_never_mutate_witness:
  "wf_heap heap0 \<and> cssSelectorBuilder < length heap0
   \<and> chain heap0 cssSelectorBuilder [Element ''div'', Id ''main''] = Inr ex_div
   \<and> chain (fst ex_div) cssSelectorBuilder [Element ''table''] = Inr ex_table
   \<and> snd ex_div < length (fst ex_div)
   \<and> outcome (chain (fst ex_div) cssSelectorBuilder [Element ''table''])
       = outcome (chain heap0 cssSelectorBuilder [Element ''table''])
   \<and> call_stringify (fst ex_table) (snd ex_div) = call_stringify (fst ex_div) (snd ex_div)
   \<and> snd (projr (call_on heap0 cssSelectorBuilder (Class ''x'')))
       < length (fst (projr (call_on heap0 cssSelectorBuilder (Class ''x''))))
   \<and> get_prop (fst (projr (call_on heap0 cssSelectorBuilder (Class ''x''))))
        (snd (projr (call_on heap0 cssSelectorBuilder (Class ''x'')))) ''cssClass'' = Some ''.x''
   \<and> get_prop (fst (projr (call_on heap0 cssSelectorBuilder (Class ''x'')))) cssSelectorBuilder
       = get_prop heap0 cssSelectorBuilder
   \<and> snd (combine heap0 cssSelectorBuilder cssSelectorBuilder ''>'' cssSelectorBuilder)
       < length (fst (combine heap0 cssSelectorBuilder cssSelectorBuilder ''>'' cssSelectorBuilder))
   \<and> get_prop (fst (combine heap0 cssSelectorBuilder cssSelectorBuilder ''>'' cssSelectorBuilder))
        (snd (combine heap0 cssSelectorBuilder cssSelectorBuilder ''>'' cssSelectorBuilder)) ''c''
       = Some ''>''
   \<and> call_stringify (fst (combine heap0 cssSelectorBuilder cssSelectorBuilder ''>'' cssSelectorBuilder))
        cssSelectorBuilder = call_stringify heap0 cssSelectorBuilder"
proof -
  let ?r = "projr (call_on heap0 cssSelectorBuilder (Class ''x''))"
  let ?k = "combine heap0 cssSelectorBuilder cssSelectorBuilder ''>'' cssSelectorBuilder"
  have b: "cssSelectorBuilder < length heap0" by code_simp
  have "\<not> isl (chain heap0 cssSelectorBuilder [Element ''div'', Id ''main''])" by code_simp
  then have c1: "chain heap0 cssSelectorBuilder [Element ''div'', Id ''main''] = Inr (fst ex_div, snd ex_div)"
    by (simp add: ex_div_def)
  have "\<not> isl (chain (fst ex_div) cssSelectorBuilder [Element ''table''])" by code_simp
  then have c2: "chain (fst ex_div) cssSelectorBuilder [Element ''table''] = Inr (fst ex_table, snd ex_table)"
    by (simp add: ex_table_def)
  have "\<not> isl (call_on heap0 cssSelectorBuilder (Class ''x''))" by code_simp
  then have c3: "call_on heap0 cssSelectorBuilder (Class ''x'') = Inr (fst ?r, snd ?r)"
    by simp
  have c4: "?k = (fst ?k, snd ?k)" by simp
  have w: "written heap0 cssSelectorBuilder (Class ''x'') = ''.x''" by code_simp
  note T = builder_calls_never_mutate [OF wf_heap0 b,
      where cs = "[Element ''div'', Id ''main'']" and hc = "fst ex_div" and ac = "snd ex_div"
        and ds = "[Element ''table'']" and he = "fst ex_table" and ae = "snd ex_table"
        and this = cssSelectorBuilder and c = "Class ''x''"
        and h' = "fst ?r" and n = "snd ?r"
        and A = cssSelectorBuilder and comb = "''>''" and B = cssSelectorBuilder
        and h'' = "fst ?k" and n' = "snd ?k"]
  note P = T [THEN conjunct1, THEN mp, OF c3]
  note Q = T [THEN conjunct2, THEN conjunct1, THEN mp, OF c4]
  note R = T [THEN conjunct2, THEN conjunct2, THEN mp, OF c1]
  have f1: "chain heap0 cssSelectorBuilder [Element ''div'', Id ''main''] = Inr ex_div"
    using c1 by simp
  have f2: "chain (fst ex_div) cssSelectorBuilder [Element ''table''] = Inr ex_table"
    using c2 by simp
  have f3: "snd ex_div < length (fst ex_div)"
    by (rule R [THEN conjunct1])
  have f4: "outcome (chain (fst ex_div) cssSelectorBuilder [Element ''table''])
       = outcome (chain heap0 cssSelectorBuilder [Element ''table''])"
    by (rule R [THEN conjunct2, THEN conjunct1])
  have f5: "call_stringify (fst ex_table) (snd ex_div) = call_stringify (fst ex_div) (snd ex_div)"
    by (rule R [THEN conjunct2, THEN conjunct2, THEN mp, OF c2])
  have f6: "snd ?r < length (fst ?r)"
    by (rule P [THEN conjunct2, THEN conjunct2, THEN conjunct1])
  have "get_prop (fst ?r) (snd ?r)
        = (get_prop heap0 cssSelectorBuilder)
            (field (Class ''x'') \<mapsto> written heap0 cssSelectorBuilder (Class ''x''))"
    by (rule P [THEN conjunct2, THEN conjunct2, THEN conjunct2, THEN conjunct2, THEN conjunct1])
  then have f7: "get_prop (fst ?r) (snd ?r) ''cssClass'' = Some ''.x''"
    unfolding w by simp
  have f8: "get_prop (fst ?r) cssSelectorBuilder = get_prop heap0 cssSelectorBuilder"
    by (rule P [THEN conjunct2, THEN conjunct2, THEN conjunct2, THEN conjunct2,
          THEN conjunct2, THEN conjunct2, THEN conjunct1])
  have f9: "snd ?k < length (fst ?k)"
    by (rule Q [THEN conjunct2, THEN conjunct2, THEN conjunct1])
  have f10: "get_prop (fst ?k) (snd ?k) ''c'' = Some ''>''"
    by (rule Q [THEN conjunct2, THEN conjunct2, THEN conjunct2, THEN conjunct2,
          THEN conjunct2, THEN conjunct1])
  have f11: "call_stringify (fst ?k) cssSelectorBuilder = call_stringify heap0 cssSelectorBuilder"
    by (rule Q [THEN conjunct2, THEN conjunct2, THEN conjunct2, THEN conjunct2,
          THEN conjunct2, THEN conjunct2, THEN conjunct2])
  show ?thesis
    by (intro conjI) (rule wf_heap0 b f1 f2 f3 f4 f5 f6 f7 f8 f9 f10 f11)+
qed

subsection \<open>Rendering\<close>

text \<open>
  C3. For every chain of fragment calls that succeeds from a builder as the constructor
  leaves it, \<open>stringify()\<close> of the result is exactly the concatenation, in the fixed kind
  order, of the element token, \<open>#\<close> and the id if present, every class token prefixed by
  \<open>.\<close> in call order, the attribute in square brackets if present, every pseudo-class token
  prefixed by \<open>:\<close> in call order, and \<open>::\<close> and the pseudo-element if present, with nothing
  else in between (\<open>spec_render\<close>); a singleton fragment is present when its token is not
  the empty string. In particular \<open>id('main').class('container').class('editable')\<close>
  renders as \<open>#main.container.editable\<close>.
\<close>

theorem stringify_renders_fragments_in_order:
  "(fresh_builder h b \<and> chain h b cs = Inr (h', a) \<longrightarrow> call_stringify h' a = spec_render cs)
   \<and> outcome (chain heap0 cssSelectorBuilder [Id ''main'', Class ''container'', Class ''editable''])
       = Inr ''#main.container.editable''"
proof
  show "fresh_builder h b \<and> chain h b cs = Inr (h', a) \<longrightarrow> call_stringify h' a = spec_render cs"
    using chain_render by blast
  show "outcome (chain heap0 cssSelectorBuilder [Id ''main'', Class ''container'', Class ''editable''])
       = Inr ''#main.container.editable''"
    by code_simp
qed

theorem stringify_renders_fragments_in_order_witness:
  "fresh_builder heap0 cssSelectorBuilder
   \<and> chain heap0 cssSelectorBuilder [Element ''div'', Id ''main''] = Inr ex_div
   \<and> call_stringify (fst ex_div) (snd ex_div) = ''div#main''
   \<and> spec_render [Element ''div'', Id ''main''] = ''div#main''"
proof -
  have "\<not> isl (chain heap0 cssSelectorBuilder [Element ''div'', Id ''main''])"
    by code_simp
  then have c: "chain heap0 cssSelectorBuilder [Element ''div'', Id ''main''] = Inr (fst ex_div, snd ex_div)"
    by (simp add: ex_div_def)
  have r: "spec_render [Element ''div'', Id ''main''] = ''div#main''" by code_simp
  show ?thesis
    using stringify_renders_fragments_in_order
      [of heap0 cssSelectorBuilder "[Element ''div'', Id ''main'']" "fst ex_div" "snd ex_div"]
      fresh_builder0 c r
    by simp
qed

subsection \<open>combine\<close>

text \<open>
  C4. For every two selectors \<open>A\<close> and \<open>B\<close> built in a well-formed heap and every combinator
  string \<open>c\<close>, \<open>combine(A, c, B).stringify()\<close> is \<open>A.stringify()\<close>, a space, \<open>c\<close> as it was
  passed, a space and \<open>B.stringify()\<close>; \<open>A\<close> and \<open>B\<close> render the same before and after the
  call.
\<close>

theorem combine_stringify_concatenates:
  assumes "wf_heap h" and "A < length h" and "B < length h"
  shows "case combine h this A c B of
           (h', n) \<Rightarrow>
             call_stringify h' n = call_stringify h A @ '' '' @ c @ '' '' @ call_stringify h B
             \<and> call_stringify h' A = call_stringify h A
             \<and> call_stringify h' B = call_stringify h B"
proof -
  obtain h' n where r: "combine h this A c B = (h', n)" by (cases "combine h this A c B")
  from combine_eq [of h this A c B] r obtain ob where h': "h' = h @ [ob]" by auto
  have "call_stringify h' n = call_stringify h A @ '' '' @ c @ '' '' @ call_stringify h B"
    by (rule combine_stringify [OF assms r])
  moreover have "call_stringify h' A = call_stringify h A"
    unfolding h' by (rule call_stringify_append [OF assms(1,2)])
  moreover have "call_stringify h' B = call_stringify h B"
    unfolding h' by (rule call_stringify_append [OF assms(1,3)])
  ultimately show ?thesis by (simp add: r)
qed

theorem combine_stringify_concatenates_witness:
  "wf_heap (fst ex_table) \<and> snd ex_div < length (fst ex_table)
   \<and> snd ex_table < length (fst ex_table)
   \<and> call_stringify (fst ex_table) (snd ex_div) = ''div#main''
   \<and> call_stringify (fst ex_table) (snd ex_table) = ''table''
   \<and> call_stringify (fst (combine (fst ex_table) cssSelectorBuilder (snd ex_div) ''+'' (snd ex_table)))
        (snd (combine (fst ex_table) cssSelectorBuilder (snd ex_div) ''+'' (snd ex_table)))
      = ''div#main + table''"
proof -
  have w: "wf_heap (fst ex_table)" by code_simp
  have a: "snd ex_div < length (fst ex_table)" by code_simp
  have b: "snd ex_table < length (fst ex_table)" by code_simp
  have sa: "call_stringify (fst ex_table) (snd ex_div) = ''div#main''" by code_simp
  have sb: "call_stringify (fst ex_table) (snd ex_table) = ''table''" by code_simp
  show ?thesis
    using combine_stringify_concatenates [OF w a b, where this = cssSelectorBuilder and c = "''+''"] w a b sa sb
    by (simp add: split_beta)
qed

subsection \<open>Duplicates\<close>

text \<open>
  C5. Calling \<open>element\<close> on an object whose element is set, \<open>id\<close> on one whose id is set,
  and \<open>pseudoElement\<close> on one whose pseudo-element is set fails with \<open>DuplicateViolation\<close>;
  it neither succeeds nor raises \<open>OrderViolation\<close>. A field is set when it holds a non-empty
  string. In every chain, once a successful call of \<open>element\<close>, \<open>id\<close> or \<open>pseudoElement\<close> has
  given a non-empty token, the same method called on the result of the chain fails with
  \<open>DuplicateViolation\<close>.
\<close>

theorem singleton_twice_is_duplicate:
  "(present h a ''cssElement'' \<longrightarrow> element h a v = Inl DuplicateViolation)
   \<and> (present h a ''cssId'' \<longrightarrow> id' h a v = Inl DuplicateViolation)
   \<and> (present h a ''cssPseudoElement'' \<longrightarrow> pseudoElement h a v = Inl DuplicateViolation)
   \<and> (chain h b cs = Inr (h', a') \<and> t \<noteq> [] \<longrightarrow>
        (Element t \<in> set cs \<longrightarrow> element h' a' v = Inl DuplicateViolation)
        \<and> (Id t \<in> set cs \<longrightarrow> id' h' a' v = Inl DuplicateViolation)
        \<and> (PseudoElement t \<in> set cs \<longrightarrow> pseudoElement h' a' v = Inl DuplicateViolation))"
proof (intro conjI impI)
  show "element h a v = Inl DuplicateViolation" if "present h a ''cssElement''" for h a
    using that call_on_duplicate [of h a "Element v"] by simp
  note e = this
  show "id' h a v = Inl DuplicateViolation" if "present h a ''cssId''" for h a
    using that call_on_duplicate [of h a "Id v"] by simp
  note i = this
  show "pseudoElement h a v = Inl DuplicateViolation" if "present h a ''cssPseudoElement''" for h a
    using that call_on_duplicate [of h a "PseudoElement v"] by simp
  note p = this
  assume "chain h b cs = Inr (h', a') \<and> t \<noteq> []"
  then have c: "chain h b cs = Inr (h', a')" and t: "t \<noteq> []" by simp_all
  show "element h' a' v = Inl DuplicateViolation" if "Element t \<in> set cs"
    using chain_present [OF c that] t by (simp add: e)
  show "id' h' a' v = Inl DuplicateViolation" if "Id t \<in> set cs"
    using chain_present [OF c that] t by (simp add: i)
  show "pseudoElement h' a' v = Inl DuplicateViolation" if "PseudoElement t \<in> set cs"
    using chain_present [OF c that] t by (simp add: p)
qed

theorem singleton_twice_is_duplicate_witness:
  "chain heap0 cssSelectorBuilder [Element ''div'', Id ''main''] = Inr ex_div
   \<and> present (fst ex_div) (snd ex_div) ''cssElement''
   \<and> present (fst ex_div) (snd ex_div) ''cssId''
   \<and> element (fst ex_div) (snd ex_div) ''span'' = Inl DuplicateViolation
   \<and> id' (fst ex_div) (snd ex_div) ''other'' = Inl DuplicateViolation
   \<and> present (fst (projr (pseudoElement heap0 cssSelectorBuilder ''after'')))
        (snd (projr (pseudoElement heap0 cssSelectorBuilder ''after''))) ''cssPseudoElement''
   \<and> pseudoElement (fst (projr (pseudoElement heap0 cssSelectorBuilder ''after'')))
        (snd (projr (pseudoElement heap0 cssSelectorBuilder ''after''))) ''before''
       = Inl DuplicateViolation"
proof -
  have "\<not> isl (chain heap0 cssSelectorBuilder [Element ''div'', Id ''main''])" by code_simp
  then have c: "chain heap0 cssSelectorBuilder [Element ''div'', Id ''main''] = Inr (fst ex_div, snd ex_div)"
    by (simp add: ex_div_def)
  have pe: "present (fst ex_div) (snd ex_div) ''cssElement''" by code_simp
  have pi: "present (fst ex_div) (snd ex_div) ''cssId''" by code_simp
  have pp: "present (fst (projr (pseudoElement heap0 cssSelectorBuilder ''after'')))
        (snd (projr (pseudoElement heap0 cssSelectorBuilder ''after''))) ''cssPseudoElement''"
    by code_simp
  show ?thesis
    using c pe pi pp
      singleton_twice_is_duplicate [where h = "fst (projr (pseudoElement heap0 cssSelectorBuilder ''after''))"
        and a = "snd (projr (pseudoElement heap0 cssSelectorBuilder ''after''))" and v = "''before''"
        and cs = "[]" and b = 0 and t = "''x''" and h' = "[]" and a' = 0]
      singleton_twice_is_duplicate [where h = heap0 and b = cssSelectorBuilder
        and cs = "[Element ''div'', Id ''main'']" and h' = "fst ex_div" and a' = "snd ex_div"
        and t = "''div''" and v = "''span''" and a = 0]
      singleton_twice_is_duplicate [where h = heap0 and b = cssSelectorBuilder
        and cs = "[Element ''div'', Id ''main'']" and h' = "fst ex_div" and a' = "snd ex_div"
        and t = "''main''" and v = "''other''" and a = 0]
    by simp
qed

subsection \<open>element\<close>

text \<open>
  C6 (as amended). \<open>element(value)\<close> fails with \<open>DuplicateViolation\<close> if the element is
  already set; otherwise it fails with \<open>OrderViolation\<close> if a fragment of a later kind (id,
  class, attribute, pseudo-class, pseudo-element) is present; otherwise it returns a new
  object with the element set to \<open>value\<close>, every other property and \<open>stringify\<close> as in the
  object it was called on, and the objects allocated before unchanged.

  As stated, the claim has \<open>OrderViolation\<close> in the first case:
  \<open>cssSelectorBuilder.element('div').element('span')\<close> raises \<open>DuplicateViolation\<close>.
\<close>

theorem element_duplicate_then_order_then_derive:
  "(present h a ''cssElement'' \<longrightarrow> element h a v = Inl DuplicateViolation)
   \<and> (\<not> present h a ''cssElement''
        \<and> list_ex (present h a)
             [''cssId'', ''cssClass'', ''cssAttr'', ''cssPseudoClass'', ''cssPseudoElement'']
       \<longrightarrow> element h a v = Inl OrderViolation)
   \<and> (\<not> present h a ''cssElement''
        \<and> \<not> list_ex (present h a)
               [''cssId'', ''cssClass'', ''cssAttr'', ''cssPseudoClass'', ''cssPseudoElement'']
       \<longrightarrow> (\<exists>h' n. element h a v = Inr (h', n)
              \<and> n = length h \<and> take (length h) h' = h
              \<and> get_prop h' n = (get_prop h a)(''cssElement'' \<mapsto> v)
              \<and> get_method h' n = get_method h a))"
proof (intro conjI impI)
  show "element h a v = Inl DuplicateViolation" if "present h a ''cssElement''"
    using that by (simp add: element_def present_def)
  show "element h a v = Inl OrderViolation"
    if "\<not> present h a ''cssElement''
        \<and> list_ex (present h a)
             [''cssId'', ''cssClass'', ''cssAttr'', ''cssPseudoClass'', ''cssPseudoElement'']"
    using that by (simp add: element_def present_def)
  assume n: "\<not> present h a ''cssElement''
        \<and> \<not> list_ex (present h a)
               [''cssId'', ''cssClass'', ''cssAttr'', ''cssPseudoClass'', ''cssPseudoElement'']"
  then obtain h' n where r: "call_on h a (Element v) = Inr (h', n)"
    using call_on_succeeds [of "Element v" h a]
    by (auto simp: later_kinds_def kind_order_def)
  from call_on_Inr [OF r] obtain ob where "n = length h" and "h' = h @ [ob]"
    and "get_method h' n = get_method h a" by blast
  moreover have "get_prop h' n = (get_prop h a)(''cssElement'' \<mapsto> v)"
    using call_on_get_prop [OF r] by auto
  ultimately show "\<exists>h' n. element h a v = Inr (h', n)
              \<and> n = length h \<and> take (length h) h' = h
              \<and> get_prop h' n = (get_prop h a)(''cssElement'' \<mapsto> v)
              \<and> get_method h' n = get_method h a"
    using r by simp
qed

theorem element_duplicate_then_order_then_derive_witness:
  "present (fst ex_div) (snd ex_div) ''cssElement''
   \<and> element (fst ex_div) (snd ex_div) ''span'' = Inl DuplicateViolation
   \<and> \<not> present (fst (projr (id' heap0 cssSelectorBuilder ''main'')))
          (snd (projr (id' heap0 cssSelectorBuilder ''main''))) ''cssElement''
   \<and> present (fst (projr (id' heap0 cssSelectorBuilder ''main'')))
          (snd (projr (id' heap0 cssSelectorBuilder ''main''))) ''cssId''
   \<and> element (fst (projr (id' heap0 cssSelectorBuilder ''main'')))
          (snd (projr (id' heap0 cssSelectorBuilder ''main''))) ''div'' = Inl OrderViolation
   \<and> \<not> present heap0 cssSelectorBuilder ''cssElement''
   \<and> \<not> list_ex (present heap0 cssSelectorBuilder)
          [''cssId'', ''cssClass'', ''cssAttr'', ''cssPseudoClass'', ''cssPseudoElement'']
   \<and> (\<exists>h' n. element heap0 cssSelectorBuilder ''div'' = Inr (h', n)
         \<and> get_prop h' n ''cssElement'' = Some ''div'')"
proof -
  have p1: "present (fst ex_div) (snd ex_div) ''cssElement''" by code_simp
  have p2: "\<not> present (fst (projr (id' heap0 cssSelectorBuilder ''main'')))
          (snd (projr (id' heap0 cssSelectorBuilder ''main''))) ''cssElement''" by code_simp
  have p3: "present (fst (projr (id' heap0 cssSelectorBuilder ''main'')))
          (snd (projr (id' heap0 cssSelectorBuilder ''main''))) ''cssId''" by code_simp
  have p4: "\<not> present heap0 cssSelectorBuilder ''cssElement''" by code_simp
  have p5: "\<not> list_ex (present heap0 cssSelectorBuilder)
          [''cssId'', ''cssClass'', ''cssAttr'', ''cssPseudoClass'', ''cssPseudoElement'']"
    by code_simp
  have "\<exists>h' n. element heap0 cssSelectorBuilder ''div'' = Inr (h', n)
         \<and> get_prop h' n ''cssElement'' = Some ''div''"
    using element_duplicate_then_order_then_derive [of heap0 cssSelectorBuilder "''div''"] p4 p5
    by auto
  then show ?thesis
    using p1 p2 p3 p4 p5
      element_duplicate_then_order_then_derive [of "fst ex_div" "snd ex_div" "''span''"]
      element_duplicate_then_order_then_derive
        [of "fst (projr (id' heap0 cssSelectorBuilder ''main''))"
            "snd (projr (id' heap0 cssSelectorBuilder ''main''))" "''div''"]
    by simp
qed

theorem element_twice_is_not_order_violation_counterexample:
  "\<not> isl (chain heap0 cssSelectorBuilder [Element ''div''])
   \<and> chain heap0 cssSelectorBuilder [Element ''div'', Element ''span''] = Inl DuplicateViolation
   \<and> chain heap0 cssSelectorBuilder [Element ''div'', Element ''span''] \<noteq> Inl OrderViolation"
proof -
  have "isl (chain heap0 cssSelectorBuilder [Element ''div'', Element ''span''])
        \<and> projl (chain heap0 cssSelectorBuilder [Element ''div'', Element ''span'']) = DuplicateViolation"
    by code_simp
  then have "chain heap0 cssSelectorBuilder [Element ''div'', Element ''span''] = Inl DuplicateViolation"
    by (cases "chain heap0 cssSelectorBuilder [Element ''div'', Element ''span'']") simp_all
  moreover have "\<not> isl (chain heap0 cssSelectorBuilder [Element ''div''])" by code_simp
  ultimately show ?thesis by simp
qed

subsection \<open>Ordering\<close>

text \<open>
  C7 (as amended). A call that would add a fragment kind before a kind already present
  fails: with \<open>DuplicateViolation\<close> when the call is \<open>element\<close> or \<open>id\<close> and that field is
  itself set, with \<open>OrderViolation\<close> otherwise. In particular \<open>class\<close> fails with
  \<open>OrderViolation\<close> while the attribute, a pseudo-class or the pseudo-element is set, and
  \<open>attr\<close> while a pseudo-class or the pseudo-element is set. In a chain, after any call of
  \<open>pseudoClass\<close>, or a call of \<open>pseudoElement\<close> with a non-empty token, \<open>class\<close> and \<open>attr\<close>
  fail with \<open>OrderViolation\<close>, and \<open>class\<close> fails so when the last \<open>attr\<close> call of the chain
  gave a non-empty token.

  As stated, the claim has \<open>OrderViolation\<close> for every such call:
  \<open>element('div').id('main').element('span')\<close> raises \<open>DuplicateViolation\<close> although the
  id, a later kind, is present.
\<close>

theorem out_of_order_calls_are_rejected:
  "(list_ex (present h a) (later_kinds c) \<longrightarrow>
      call_on h a c =
        Inl (if (field c = ''cssElement'' \<or> field c = ''cssId'') \<and> present h a (field c)
             then DuplicateViolation else OrderViolation))
   \<and> (present h a ''cssAttr'' \<or> present h a ''cssPseudoClass'' \<or> present h a ''cssPseudoElement''
       \<longrightarrow> class' h a v = Inl OrderViolation)
   \<and> (present h a ''cssPseudoClass'' \<or> present h a ''cssPseudoElement''
       \<longrightarrow> attr h a v = Inl OrderViolation)
   \<and> (chain h b cs = Inr (h', a')
        \<and> (tokens ''cssPseudoClass'' cs \<noteq> [] \<or> (PseudoElement t \<in> set cs \<and> t \<noteq> []))
       \<longrightarrow> class' h' a' v = Inl OrderViolation \<and> attr h' a' v = Inl OrderViolation)
   \<and> (chain h b cs = Inr (h', a') \<and> single ''cssAttr'' cs \<noteq> []
       \<longrightarrow> class' h' a' v = Inl OrderViolation)"
proof (intro conjI impI)
  show "call_on h a c =
        Inl (if (field c = ''cssElement'' \<or> field c = ''cssId'') \<and> present h a (field c)
             then DuplicateViolation else OrderViolation)"
    if "list_ex (present h a) (later_kinds c)"
    using that call_on_order [of h a c] call_on_duplicate [of h a c] by auto
  show cl: "class' h a v = Inl OrderViolation"
    if "present h a ''cssAttr'' \<or> present h a ''cssPseudoClass'' \<or> present h a ''cssPseudoElement''"
    for h a
    using that call_on_order [of h a "Class v"] by (auto simp: later_kinds_simps)
  show at: "attr h a v = Inl OrderViolation"
    if "present h a ''cssPseudoClass'' \<or> present h a ''cssPseudoElement''" for h a
    using that call_on_order [of h a "Attr v"] by (auto simp: later_kinds_simps)
  {
    assume "chain h b cs = Inr (h', a')
        \<and> (tokens ''cssPseudoClass'' cs \<noteq> [] \<or> (PseudoElement t \<in> set cs \<and> t \<noteq> []))"
    then have "present h' a' ''cssPseudoClass'' \<or> present h' a' ''cssPseudoElement''"
      using chain_pseudoClass_present [of h b cs h' a'] chain_present [of h b cs h' a' "PseudoElement t"]
      by auto
    then show "class' h' a' v = Inl OrderViolation" and "attr h' a' v = Inl OrderViolation"
      using cl [of h' a'] at [of h' a'] by auto
  }
  assume "chain h b cs = Inr (h', a') \<and> single ''cssAttr'' cs \<noteq> []"
  then have "present h' a' ''cssAttr''" using chain_attr_present by blast
  then show "class' h' a' v = Inl OrderViolation" using cl [of h' a'] by simp
qed


theorem out_of_order_calls_are_rejected_witness:
  "list_ex (present (fst ex_div) (snd ex_div)) (later_kinds (Element ''span''))
   \<and> present (fst ex_div) (snd ex_div) (field (Element ''span''))
   \<and> call_on (fst ex_div) (snd ex_div) (Element ''span'') = Inl DuplicateViolation
   \<and> list_ex (present (fst ex_href) (snd ex_href)) (later_kinds (Class ''box''))
   \<and> call_on (fst ex_href) (snd ex_href) (Class ''box'') = Inl OrderViolation
   \<and> present (fst ex_href) (snd ex_href) ''cssAttr''
   \<and> class' (fst ex_href) (snd ex_href) ''item'' = Inl OrderViolation
   \<and> present (fst ex_hover) (snd ex_hover) ''cssPseudoClass''
   \<and> attr (fst ex_hover) (snd ex_hover) ''href'' = Inl OrderViolation
   \<and> chain heap0 cssSelectorBuilder [PseudoClass ''hover''] = Inr ex_hover
   \<and> tokens ''cssPseudoClass'' [PseudoClass ''hover''] \<noteq> []
   \<and> class' (fst ex_hover) (snd ex_hover) ''box'' = Inl OrderViolation
   \<and> chain (fst ex_div) (snd ex_div) [Attr ''href''] = Inr ex_href
   \<and> single ''cssAttr'' [Attr ''href''] \<noteq> []
   \<and> class' (fst ex_href) (snd ex_href) ''row'' = Inl OrderViolation"
proof -
  have p1: "list_ex (present (fst ex_div) (snd ex_div)) (later_kinds (Element ''span''))"
    by code_simp
  have p2: "present (fst ex_div) (snd ex_div) (field (Element ''span''))" by code_simp
  have p3: "list_ex (present (fst ex_href) (snd ex_href)) (later_kinds (Class ''box''))"
    by code_simp
  have p4: "present (fst ex_href) (snd ex_href) ''cssAttr''" by code_simp
  have p5: "present (fst ex_hover) (snd ex_hover) ''cssPseudoClass''" by code_simp
  have "\<not> isl (chain heap0 cssSelectorBuilder [PseudoClass ''hover''])" by code_simp
  then have c1: "chain heap0 cssSelectorBuilder [PseudoClass ''hover'']
                 = Inr (fst ex_hover, snd ex_hover)"
    by (simp add: ex_hover_def)
  have "\<not> isl (chain (fst ex_div) (snd ex_div) [Attr ''href''])" by code_simp
  then have c2: "chain (fst ex_div) (snd ex_div) [Attr ''href''] = Inr (fst ex_href, snd ex_href)"
    by (simp add: ex_href_def)
  have t1: "tokens ''cssPseudoClass'' [PseudoClass ''hover''] \<noteq> []" by code_simp
  have t2: "single ''cssAttr'' [Attr ''href''] \<noteq> []" by code_simp
  have a1: "call_on (fst ex_div) (snd ex_div) (Element ''span'') = Inl DuplicateViolation"
    using out_of_order_calls_are_rejected
      [where h = "fst ex_div" and a = "snd ex_div" and c = "Element ''span''"] p1 p2
    by simp
  have a2: "call_on (fst ex_href) (snd ex_href) (Class ''box'') = Inl OrderViolation"
    using out_of_order_calls_are_rejected
      [where h = "fst ex_href" and a = "snd ex_href" and c = "Class ''box''"] p3
    by simp
  have a3: "class' (fst ex_href) (snd ex_href) ''item'' = Inl OrderViolation"
    using out_of_order_calls_are_rejected
      [where h = "fst ex_href" and a = "snd ex_href" and v = "''item''"] p4
    by blast
  have a4: "attr (fst ex_hover) (snd ex_hover) ''href'' = Inl OrderViolation"
    using out_of_order_calls_are_rejected
      [where h = "fst ex_hover" and a = "snd ex_hover" and v = "''href''"] p5
    by blast
  have a5: "class' (fst ex_hover) (snd ex_hover) ''box'' = Inl OrderViolation"
    using out_of_order_calls_are_rejected
      [where h = heap0 and b = cssSelectorBuilder and cs = "[PseudoClass ''hover'']"
        and h' = "fst ex_hover" and a' = "snd ex_hover" and v = "''box''"] c1 t1
    by blast
  have a6: "class' (fst ex_href) (snd ex_href) ''row'' = Inl OrderViolation"
    using out_of_order_calls_are_rejected
      [where h = "fst ex_div" and b = "snd ex_div" and cs = "[Attr ''href'']"
        and h' = "fst ex_href" and a' = "snd ex_href" and v = "''row''"] c2 t2
    by blast
  show ?thesis
    using p1 p2 p3 p4 p5 c1 c2 t1 t2 a1 a2 a3 a4 a5 a6 by simp
qed

theorem later_kind_present_yet_duplicate_counterexample:
  "\<not> isl (chain heap0 cssSelectorBuilder [Element ''div'', Id ''main''])
   \<and> list_ex (present (fst ex_div) (snd ex_div)) (later_kinds (Element ''span''))
   \<and> projl (call_on (fst ex_div) (snd ex_div) (Element ''span'')) = DuplicateViolation
   \<and> isl (call_on (fst ex_div) (snd ex_div) (Element ''span''))
   \<and> call_on (fst ex_div) (snd ex_div) (Element ''span'') \<noteq> Inl OrderViolation"
proof -
  have a: "\<not> isl (chain heap0 cssSelectorBuilder [Element ''div'', Id ''main''])" by code_simp
  have b: "list_ex (present (fst ex_div) (snd ex_div)) (later_kinds (Element ''span''))"
    by code_simp
  have c: "projl (call_on (fst ex_div) (snd ex_div) (Element ''span'')) = DuplicateViolation"
    by code_simp
  have d: "isl (call_on (fst ex_div) (snd ex_div) (Element ''span''))" by code_simp
  have "call_on (fst ex_div) (snd ex_div) (Element ''span'') \<noteq> Inl OrderViolation"
    using c by (cases "call_on (fst ex_div) (snd ex_div) (Element ''span'')") auto
  then show ?thesis using a b c d by simp
qed

subsection \<open>isLeapYear\<close>

text \<open>
  C8. The claim: \<open>isLeapYear\<close> returns true exactly when the year of the date is divisible
  by 4 and (not divisible by 100 or divisible by 400). At a date in the year 0 the function
  returns false although 0 is divisible by 400: the constructor reads the year 0 as 1900,
  and 29 February 1900 rolls over to 1 March. For every other year the function agrees with
  the rule (\<open>isLeapYear_rule\<close>).
\<close>

theorem isLeapYear_year_zero:
  "isLeapYear \<lparr>getFullYear = 0, getUTCHours = 12, getMinutes = 0\<rparr> = False
   \<and> 4 dvd getFullYear \<lparr>getFullYear = 0, getUTCHours = 12, getMinutes = 0\<rparr>
   \<and> 400 dvd getFullYear \<lparr>getFullYear = 0, getUTCHours = 12, getMinutes = 0\<rparr>
   \<and> getDate (new_Date 0 1 29) = 1 \<and> month (new_Date 0 1 29) = 2 \<and> year (new_Date 0 1 29) = 1900"
  by (simp add: isLeapYear_def new_Date_def DaysInMonth_def DaysInYear_def)

subsection \<open>angleBetweenClockHands\<close>

text \<open>
  C9. The claim: \<open>angleBetweenClockHands\<close> returns the angle between the hour hand (from the
  UTC hour) and the minute hand (from the local minute), folded into the shorter of the two
  arcs, in radians. At UTC hour 7 and minute 0 the hands are 150 degrees apart, which is
  \<open>5 * pi / 6\<close>, while the function returns \<open>pi / 6\<close>: it takes the position of the hour hand
  modulo half a turn. On the reals the result does lie between 0 and \<open>pi\<close>
  (\<open>angle_in_range\<close>).
\<close>

theorem angleBetweenClockHands_at_seven:
  "angleBetweenClockHands \<lparr>getFullYear = 2016, getUTCHours = 7, getMinutes = 0\<rparr> = pi / 6
   \<and> clock_angle 7 0 = 5 * pi / 6
   \<and> angleBetweenClockHands \<lparr>getFullYear = 2016, getUTCHours = 7, getMinutes = 0\<rparr>
       \<noteq> clock_angle 7 0"
proof -
  have "pi / 6 \<noteq> 0.47996554429844085" using pi_ge_three by simp
  then have a: "angleBetweenClockHands \<lparr>getFullYear = 2016, getUTCHours = 7, getMinutes = 0\<rparr> = pi / 6"
    by (simp add: angleBetweenClockHands_def Let_def)
  have b: "clock_angle 7 0 = 5 * pi / 6"
    by (simp add: clock_angle_def Let_def)
  show ?thesis unfolding a b using pi_gt_zero by simp
qed

subsection \<open>Empty tokens\<close>

text \<open>
  C10 (as amended). An empty-string token passed to \<open>element\<close>, \<open>id\<close>, \<open>attr\<close> or
  \<open>pseudoElement\<close> is treated as if the fragment were absent: after the call the field does
  not count as set, every other property is as before, and whenever a later call on the
  result is rejected, a field other than this one is set; for a chain from a fresh builder
  that ends in such a call, \<open>stringify()\<close> is the rendering of the chain without any call of
  that kind. For example \<open>element('')\<close> followed by \<open>element('x')\<close> succeeds and renders
  \<open>x\<close>.

  As stated, the claim speaks of any builder operation: \<open>class('')\<close> stores \<open>.\<close>, which
  \<open>stringify()\<close> renders and which makes a later \<open>element('x')\<close> fail with
  \<open>OrderViolation\<close>.
\<close>

theorem empty_singleton_token_counts_as_absent:
  "(token c = [] \<and> field c \<noteq> ''cssClass'' \<and> field c \<noteq> ''cssPseudoClass''
      \<and> call_on h a c = Inr (h', n) \<longrightarrow>
        \<not> present h' n (field c)
        \<and> (k \<noteq> field c \<longrightarrow> get_prop h' n k = get_prop h a k)
        \<and> (call_on h' n d = Inl e \<longrightarrow>
             list_ex (\<lambda>k. k \<noteq> field c \<and> present h' n k) kind_order))
   \<and> (token c = [] \<and> field c \<noteq> ''cssClass'' \<and> field c \<noteq> ''cssPseudoClass''
      \<and> fresh_builder h b \<and> chain h b (cs @ [c]) = Inr (h', n) \<longrightarrow>
        call_stringify h' n = spec_render (filter (\<lambda>x. field x \<noteq> field c) cs))
   \<and> outcome (chain heap0 cssSelectorBuilder [Element [], Element ''x'']) = Inr ''x''"
proof (intro conjI impI)
  show "outcome (chain heap0 cssSelectorBuilder [Element [], Element ''x'']) = Inr ''x''"
    by (rule element_empty_then_element)
  {
    assume "token c = [] \<and> field c \<noteq> ''cssClass'' \<and> field c \<noteq> ''cssPseudoClass''
      \<and> fresh_builder h b \<and> chain h b (cs @ [c]) = Inr (h', n)"
    then have f: "fresh_builder h b" and ch: "chain h b (cs @ [c]) = Inr (h', n)"
      and t: "token c = []" "field c \<noteq> ''cssClass''" "field c \<noteq> ''cssPseudoClass''"
      by simp_all
    show "call_stringify h' n = spec_render (filter (\<lambda>x. field x \<noteq> field c) cs)"
      unfolding chain_render [OF f ch] by (rule spec_render_empty_token [OF t])
  }
  assume A: "token c = [] \<and> field c \<noteq> ''cssClass'' \<and> field c \<noteq> ''cssPseudoClass''
      \<and> call_on h a c = Inr (h', n)"
  then have r: "call_on h a c = Inr (h', n)" by simp
  have w: "written h a c = []" using A by (simp add: written_eq)
  show np: "\<not> present h' n (field c)"
    using call_on_get_prop [OF r, of "field c"] w by (simp add: present_def)
  show "get_prop h' n k = get_prop h a k" if "k \<noteq> field c"
    using call_on_get_prop [OF r, of k] that by simp
  assume "call_on h' n d = Inl e"
  then have "list_ex (present h' n) kind_order" by (rule rejected_by_present_kind)
  then obtain x where x: "x \<in> set kind_order" "present h' n x"
    unfolding list_ex_iff by auto
  then have "x \<noteq> field c" using np by auto
  then show "list_ex (\<lambda>k. k \<noteq> field c \<and> present h' n k) kind_order"
    unfolding list_ex_iff using x by auto
qed



theorem empty_singleton_token_counts_as_absent_witness:
  "chain (fst ex_div) (snd ex_div) [Attr []]
     = Inr (projr (chain (fst ex_div) (snd ex_div) [Attr []]))
   \<and> \<not> present (fst (projr (chain (fst ex_div) (snd ex_div) [Attr []])))
          (snd (projr (chain (fst ex_div) (snd ex_div) [Attr []]))) ''cssAttr''
   \<and> get_prop (fst (projr (chain (fst ex_div) (snd ex_div) [Attr []])))
        (snd (projr (chain (fst ex_div) (snd ex_div) [Attr []]))) ''cssId''
       = get_prop (fst ex_div) (snd ex_div) ''cssId''
   \<and> call_on (fst (projr (chain (fst ex_div) (snd ex_div) [Attr []])))
        (snd (projr (chain (fst ex_div) (snd ex_div) [Attr []]))) (Element ''p'')
       = Inl DuplicateViolation
   \<and> list_ex (\<lambda>k. k \<noteq> ''cssAttr''
                 \<and> present (fst (projr (chain (fst ex_div) (snd ex_div) [Attr []])))
                      (snd (projr (chain (fst ex_div) (snd ex_div) [Attr []]))) k) kind_order
   \<and> fresh_builder heap0 cssSelectorBuilder
   \<and> chain heap0 cssSelectorBuilder ([Element ''a'', Attr ''href''] @ [Attr []])
       = Inr (projr (chain heap0 cssSelectorBuilder [Element ''a'', Attr ''href'', Attr []]))
   \<and> call_stringify (fst (projr (chain heap0 cssSelectorBuilder [Element ''a'', Attr ''href'', Attr []])))
        (snd (projr (chain heap0 cssSelectorBuilder [Element ''a'', Attr ''href'', Attr []]))) = ''a''"
proof -
  let ?r = "projr (chain (fst ex_div) (snd ex_div) [Attr []])"
  let ?s = "projr (chain heap0 cssSelectorBuilder [Element ''a'', Attr ''href'', Attr []])"
  have "\<not> isl (chain (fst ex_div) (snd ex_div) [Attr []])" by code_simp
  then have c1: "chain (fst ex_div) (snd ex_div) [Attr []] = Inr (fst ?r, snd ?r)" by simp
  then have c1': "call_on (fst ex_div) (snd ex_div) (Attr []) = Inr (fst ?r, snd ?r)"
    by (simp split: sum.splits)
  have "isl (call_on (fst ?r) (snd ?r) (Element ''p''))
        \<and> projl (call_on (fst ?r) (snd ?r) (Element ''p'')) = DuplicateViolation"
    by code_simp
  then have d: "call_on (fst ?r) (snd ?r) (Element ''p'') = Inl DuplicateViolation"
    by (cases "call_on (fst ?r) (snd ?r) (Element ''p'')") simp_all
  have "\<not> isl (chain heap0 cssSelectorBuilder [Element ''a'', Attr ''href'', Attr []])"
    by code_simp
  then have c2: "chain heap0 cssSelectorBuilder ([Element ''a'', Attr ''href''] @ [Attr []])
                 = Inr (fst ?s, snd ?s)"
    by simp
  have sr: "spec_render (filter (\<lambda>x. field x \<noteq> field (Attr [])) [Element ''a'', Attr ''href'']) = ''a''"
    by (simp add: spec_render_def single_def tokens_def)
  note T1 = empty_singleton_token_counts_as_absent
    [where c = "Attr []" and h = "fst ex_div" and a = "snd ex_div" and h' = "fst ?r" and n = "snd ?r"
      and k = "''cssId''" and d = "Element ''p''" and e = DuplicateViolation]
  note T2 = empty_singleton_token_counts_as_absent
    [where c = "Attr []" and h = heap0 and b = cssSelectorBuilder
      and cs = "[Element ''a'', Attr ''href'']" and h' = "fst ?s" and n = "snd ?s"]
  have a1: "\<not> present (fst ?r) (snd ?r) ''cssAttr''"
    and a2: "get_prop (fst ?r) (snd ?r) ''cssId'' = get_prop (fst ex_div) (snd ex_div) ''cssId''"
    and a3: "list_ex (\<lambda>k. k \<noteq> ''cssAttr'' \<and> present (fst ?r) (snd ?r) k) kind_order"
    using T1 c1' d by simp_all
  have a4: "call_stringify (fst ?s) (snd ?s) = ''a''"
    using T2 c2 fresh_builder0 sr by simp
  show ?thesis
    using c1 c2 d a1 a2 a3 a4 fresh_builder0 by simp
qed

theorem empty_class_token_counts_as_present_counterexample:
  "outcome (chain heap0 cssSelectorBuilder [Class []]) = Inr ''.''
   \<and> \<not> isl (chain heap0 cssSelectorBuilder [Element ''x''])
   \<and> isl (chain heap0 cssSelectorBuilder [Class [], Element ''x''])
   \<and> projl (chain heap0 cssSelectorBuilder [Class [], Element ''x'']) = OrderViolation"
proof -
  have "\<not> isl (chain heap0 cssSelectorBuilder [Class []])" by code_simp
  then have a: "outcome (chain heap0 cssSelectorBuilder [Class []]) = Inr ''.''"
    using chain_render [OF fresh_builder0, of "[Class []]"]
    by (cases "chain heap0 cssSelectorBuilder [Class []]")
       (auto simp: outcome_def spec_render_def single_def tokens_def)
  have b: "\<not> isl (chain heap0 cssSelectorBuilder [Element ''x''])" by code_simp
  have c: "isl (chain heap0 cssSelectorBuilder [Class [], Element ''x''])" by code_simp
  have d: "projl (chain heap0 cssSelectorBuilder [Class [], Element ''x'']) = OrderViolation"
    by code_simp
  show ?thesis using a b c d by simp
qed

end
